theory Spec2Isabelle
  imports Main "HOL-Library.AList"
begin

unbundle bit_operations_syntax

section \<open>JavaScript values\<close>

text \<open>
  The sync manager (\<^verbatim>\<open>class SyncManager\<close>) works on plain JSON-like data: the local
  snapshot handed to \<^verbatim>\<open>syncData\<close>, the document parsed from the remote response, the items
  of the mergeable collections. A value is a tree without sharing. An object is the list of
  its own properties in enumeration order, with pairwise distinct names.

  Two restrictions of the value domain are fixed here once: numbers are the integers
  (the safe-integer range of a double, where arithmetic and printing are exact), and strings
  are sequences of code units below 256.
\<close>

datatype jsval =
    JUndefined
  | JNull
  | JBool bool
  | JNum int
  | JStr string
  | JArr "jsval list"
  | JObj "(string \<times> jsval) list"

text \<open>Errors are values: the constructor is the class of the thrown object, the argument
  its \<^verbatim>\<open>message\<close>. The messages of engine-raised errors are engine-specific; the model
  fixes one text for each.\<close>

datatype js_error =
    Error string
  | TypeError string
  | SyntaxError string
  | DOMException string string  \<comment> \<open>its \<^verbatim>\<open>name\<close>, then its \<^verbatim>\<open>message\<close>\<close>

fun message :: "js_error \<Rightarrow> string" where
  "message (Error m) = m"
| "message (TypeError m) = m"
| "message (SyntaxError m) = m"
| "message (DOMException n m) = m"

subsection \<open>Number to string\<close>

definition digit_char :: "nat \<Rightarrow> char" where
  \<comment> \<open>only applied to \<open>d < 10\<close>\<close>
  "digit_char d = ''0123456789'' ! d"

fun nat_to_string :: "nat \<Rightarrow> string" where
  "nat_to_string n =
     (if n < 10 then [digit_char n] else nat_to_string (n div 10) @ [digit_char (n mod 10)])"

declare nat_to_string.simps [simp del]

definition int_to_string :: "int \<Rightarrow> string" where
  \<comment> \<open>\<^verbatim>\<open>Number.prototype.toString\<close> on an integer\<close>
  "int_to_string i = (if i < 0 then CHR ''-'' # nat_to_string (nat (- i)) else nat_to_string (nat i))"

subsection \<open>Truthiness, property access, spreading\<close>

fun truthy :: "jsval \<Rightarrow> bool" where
  "truthy JUndefined = False"
| "truthy JNull = False"
| "truthy (JBool b) = b"
| "truthy (JNum n) = (n \<noteq> 0)"
| "truthy (JStr s) = (s \<noteq> [])"
| "truthy (JArr xs) = True"
| "truthy (JObj ps) = True"

definition lookup_prop :: "(string \<times> jsval) list \<Rightarrow> string \<Rightarrow> jsval" where
  "lookup_prop ps name = (case map_of ps name of None \<Rightarrow> JUndefined | Some v \<Rightarrow> v)"

text \<open>
  \<^verbatim>\<open>v.name\<close> and \<^verbatim>\<open>v[name]\<close>, for the property names the sync manager reads
  (\<^verbatim>\<open>_meta\<close>, \<^verbatim>\<open>lastSync\<close>, \<^verbatim>\<open>manualTransactions\<close>, \<^verbatim>\<open>activeLoans\<close>,
  \<^verbatim>\<open>futureIncomes\<close>, \<^verbatim>\<open>currentBalance\<close>, \<^verbatim>\<open>id\<close>, \<^verbatim>\<open>desc\<close>, \<^verbatim>\<open>timestamp\<close>):
  none of them is an index, \<^verbatim>\<open>length\<close> or a prototype member, so on a number, a boolean, a
  string or an array the read gives \<^verbatim>\<open>undefined\<close>. On \<^verbatim>\<open>undefined\<close> and \<^verbatim>\<open>null\<close> it throws.
\<close>

fun get_prop :: "jsval \<Rightarrow> string \<Rightarrow> js_error + jsval" where
  "get_prop JUndefined name = Inl (TypeError ''Cannot read properties of undefined'')"
| "get_prop JNull name = Inl (TypeError ''Cannot read properties of null'')"
| "get_prop (JObj ps) name = Inr (lookup_prop ps name)"
| "get_prop v name = Inr JUndefined"

text \<open>\<^verbatim>\<open>{...v}\<close>: the own enumerable properties of \<open>v\<close>. A string and an array spread
  their indexed elements; \<^verbatim>\<open>undefined\<close>, \<^verbatim>\<open>null\<close>, numbers and booleans spread nothing.\<close>

definition indexed :: "jsval list \<Rightarrow> (string \<times> jsval) list" where
  "indexed xs = zip (map nat_to_string [0..<length xs]) xs"

fun spread_props :: "jsval \<Rightarrow> (string \<times> jsval) list" where
  "spread_props (JObj ps) = ps"
| "spread_props (JArr xs) = indexed xs"
| "spread_props (JStr s) = indexed (map (\<lambda>c. JStr [c]) s)"
| "spread_props v = []"

text \<open>\<^verbatim>\<open>[...v]\<close>: the elements of an iterable. Arrays and strings are iterable; anything
  else throws.\<close>

fun spread_iter :: "jsval \<Rightarrow> js_error + jsval list" where
  "spread_iter (JArr xs) = Inr xs"
| "spread_iter (JStr s) = Inr (map (\<lambda>c. JStr [c]) s)"
| "spread_iter v = Inl (TypeError ''object is not iterable'')"

text \<open>Writing a property (\<^verbatim>\<open>obj.name = v\<close>, or a later entry of an object literal):
  an existing property keeps its place, a new one goes last. This is \<^const>\<open>AList.update\<close>.\<close>

definition set_prop :: "string \<Rightarrow> jsval \<Rightarrow> (string \<times> jsval) list \<Rightarrow> (string \<times> jsval) list" where
  "set_prop name v ps = AList.update name v ps"

section \<open>JSON.stringify\<close>

definition hex_digit :: "nat \<Rightarrow> char" where
  \<comment> \<open>only applied to \<open>d < 16\<close>\<close>
  "hex_digit d = ''0123456789abcdef'' ! d"

definition quote_char :: "char \<Rightarrow> string" where
  "quote_char c =
     (if c = CHR ''\"'' then [CHR 0x5C, CHR ''\"'']
      else if c = CHR 0x5C then [CHR 0x5C, CHR 0x5C]
      else if c = CHR 0x08 then [CHR 0x5C, CHR ''b'']
      else if c = CHR 0x0C then [CHR 0x5C, CHR ''f'']
      else if c = CHR 0x0A then [CHR 0x5C, CHR ''n'']
      else if c = CHR 0x0D then [CHR 0x5C, CHR ''r'']
      else if c = CHR 0x09 then [CHR 0x5C, CHR ''t'']
      else if (of_char c :: nat) < 32
        then [CHR 0x5C, CHR ''u'', CHR ''0'', CHR ''0'',
              hex_digit (of_char c div 16), hex_digit (of_char c mod 16)]
      else [c])"

definition quote_string :: "string \<Rightarrow> string" where
  "quote_string s = CHR ''\"'' # concat (map quote_char s) @ [CHR ''\"'']"

fun join :: "string \<Rightarrow> string list \<Rightarrow> string" where
  "join sep [] = []"
| "join sep [x] = x"
| "join sep (x # y # ys) = x @ sep @ join sep (y # ys)"

text \<open>
  \<^verbatim>\<open>SerializeJSONProperty\<close>: \<open>None\<close> is the result \<^verbatim>\<open>undefined\<close> (no text).
  In an array an element without text is printed as \<^verbatim>\<open>null\<close>; in an object a property
  without text is left out.
\<close>

fun stringify :: "jsval \<Rightarrow> string option" where
  "stringify JUndefined = None"
| "stringify JNull = Some ''null''"
| "stringify (JBool b) = Some (if b then ''true'' else ''false'')"
| "stringify (JNum n) = Some (int_to_string n)"
| "stringify (JStr s) = Some (quote_string s)"
| "stringify (JArr xs) =
     Some (''['' @ join '','' (map (\<lambda>x. case stringify x of None \<Rightarrow> ''null'' | Some t \<Rightarrow> t) xs) @ '']'')"
| "stringify (JObj ps) =
     Some (''{'' @ join '',''
        (concat (map (\<lambda>(k, v). case stringify v of None \<Rightarrow> [] | Some t \<Rightarrow> [quote_string k @ '':'' @ t]) ps))
        @ ''}'')"

section \<open>Change detection: hashData\<close>

text \<open>
  \<^verbatim>\<open>hash = ((hash << 5) - hash) + char; hash = hash & hash;\<close>
  The shift and the bitwise and work on \<^verbatim>\<open>ToInt32\<close> of their operands
  (\<^term>\<open>signed_take_bit 31\<close> on the integers); the subtraction and the addition between
  them are exact.
\<close>

definition to_int32 :: "int \<Rightarrow> int" where
  "to_int32 x = signed_take_bit 31 x"

definition shl32 :: "int \<Rightarrow> nat \<Rightarrow> int" where
  "shl32 x k = to_int32 (push_bit k (to_int32 x))"

definition and32 :: "int \<Rightarrow> int \<Rightarrow> int" where
  "and32 x y = to_int32 (to_int32 x AND to_int32 y)"

definition hash_step :: "int \<Rightarrow> int \<Rightarrow> int" where
  "hash_step hash c = (let hash1 = (shl32 hash 5 - hash) + c in and32 hash1 hash1)"

definition char_codes :: "string \<Rightarrow> int list" where
  "char_codes str = map of_char str"

definition hash_string :: "string \<Rightarrow> int" where
  \<comment> \<open>the \<^verbatim>\<open>for\<close> loop over \<^verbatim>\<open>str.charCodeAt(i)\<close>, from \<^verbatim>\<open>hash = 0\<close>\<close>
  "hash_string str = foldl hash_step 0 (char_codes str)"

definition hashData :: "jsval \<Rightarrow> js_error + string" where
  \<comment> \<open>\<^verbatim>\<open>JSON.stringify(undefined)\<close> is \<^verbatim>\<open>undefined\<close>, and \<^verbatim>\<open>str.length\<close> throws on it\<close>
  "hashData data =
     (case stringify data of
        None \<Rightarrow> Inl (TypeError ''Cannot read properties of undefined'')
      | Some str \<Rightarrow> Inr (int_to_string (hash_string str)))"

text \<open>Modelled from the spec: \<^verbatim>\<open>deepCopy\<close> is named by the spec's test property and is not
  a function of the repository; it rebuilds every node of a value.\<close>

fun deepCopy :: "jsval \<Rightarrow> jsval" where
  "deepCopy JUndefined = JUndefined"
| "deepCopy JNull = JNull"
| "deepCopy (JBool b) = JBool b"
| "deepCopy (JNum n) = JNum n"
| "deepCopy (JStr s) = JStr (map (\<lambda>c. c) s)"
| "deepCopy (JArr xs) = JArr (map deepCopy xs)"
| "deepCopy (JObj ps) = JObj (map (\<lambda>(k, v). (k, deepCopy v)) ps)"

text \<open>The rolling hash of the spec: \<open>hash * 31 + charCode\<close>, truncated to 32 bits.\<close>

fun rolling31 :: "int \<Rightarrow> int list \<Rightarrow> int" where
  "rolling31 h [] = h"
| "rolling31 h (c # cs) = rolling31 (to_int32 (h * 31 + c)) cs"

section \<open>The comparison \<^verbatim>\<open>a > b\<close>\<close>

text \<open>
  \<^verbatim>\<open>a > b\<close> first takes both operands to primitives (an array to its elements joined by
  commas, a plain object to \<^verbatim>\<open>[object Object]\<close>). Two strings are compared by code units;
  otherwise both are taken to numbers and compared, and the result is false when one of them
  is \<^verbatim>\<open>NaN\<close> (\<open>None\<close>).
\<close>

fun js_to_string :: "jsval \<Rightarrow> string" where
  "js_to_string JUndefined = ''undefined''"
| "js_to_string JNull = ''null''"
| "js_to_string (JBool b) = (if b then ''true'' else ''false'')"
| "js_to_string (JNum n) = int_to_string n"
| "js_to_string (JStr s) = s"
| "js_to_string (JArr xs) =
     join '','' (map (\<lambda>x. if x = JUndefined \<or> x = JNull then [] else js_to_string x) xs)"
| "js_to_string (JObj ps) = ''[object Object]''"

fun to_primitive :: "jsval \<Rightarrow> jsval" where
  "to_primitive (JArr xs) = JStr (js_to_string (JArr xs))"
| "to_primitive (JObj ps) = JStr (js_to_string (JObj ps))"
| "to_primitive v = v"

definition is_space :: "char \<Rightarrow> bool" where
  "is_space c = ((of_char c :: nat) \<in> {0x09, 0x0A, 0x0B, 0x0C, 0x0D, 0x20, 0xA0})"

definition is_digit :: "char \<Rightarrow> bool" where
  "is_digit c = (48 \<le> (of_char c :: nat) \<and> (of_char c :: nat) \<le> 57)"

definition trim :: "string \<Rightarrow> string" where
  "trim s = rev (dropWhile is_space (rev (dropWhile is_space s)))"

definition digits_value :: "string \<Rightarrow> int" where
  "digits_value ds = foldl (\<lambda>acc c. acc * 10 + (of_char c - 48)) 0 ds"

text \<open>
  \<^verbatim>\<open>StringToNumber\<close> on the integer model: the trimmed text is empty (the number 0) or an
  optionally signed run of decimal digits; any other text is \<^verbatim>\<open>NaN\<close>. This covers the texts
  the sync manager meets, ISO-8601 time stamps among them (\<^verbatim>\<open>NaN\<close>). A text that JavaScript
  reads as a number in another notation (fraction, exponent, radix prefix, \<^verbatim>\<open>Infinity\<close>) has
  no counterpart among the integers and is read as \<^verbatim>\<open>NaN\<close> here.
\<close>

definition string_to_number :: "string \<Rightarrow> int option" where
  "string_to_number s =
     (let t = trim s in
      if t = [] then Some 0
      else if hd t = CHR ''-'' \<and> tl t \<noteq> [] \<and> list_all is_digit (tl t) then Some (- digits_value (tl t))
      else if hd t = CHR ''+'' \<and> tl t \<noteq> [] \<and> list_all is_digit (tl t) then Some (digits_value (tl t))
      else if list_all is_digit t then Some (digits_value t)
      else None)"

fun to_number :: "jsval \<Rightarrow> int option" where
  "to_number JUndefined = None"
| "to_number JNull = Some 0"
| "to_number (JBool b) = Some (if b then 1 else 0)"
| "to_number (JNum n) = Some n"
| "to_number (JStr s) = string_to_number s"
| "to_number (JArr xs) = string_to_number (js_to_string (JArr xs))"
| "to_number (JObj ps) = string_to_number (js_to_string (JObj ps))"

fun str_less :: "string \<Rightarrow> string \<Rightarrow> bool" where
  "str_less [] [] = False"
| "str_less [] (y # ys) = True"
| "str_less (x # xs) [] = False"
| "str_less (x # xs) (y # ys) =
     ((of_char x :: nat) < of_char y \<or> (of_char x :: nat) = of_char y \<and> str_less xs ys)"

definition js_gt :: "jsval \<Rightarrow> jsval \<Rightarrow> bool" where
  "js_gt a b =
     (case (to_primitive a, to_primitive b) of
        (JStr s, JStr t) \<Rightarrow> str_less t s
      | (pa, pb) \<Rightarrow>
          (case (to_number pa, to_number pb) of
             (Some m, Some n) \<Rightarrow> n < m
           | _ \<Rightarrow> False))"

section \<open>Conflict resolution: mergeArrays and mergeData\<close>

text \<open>
  A \<^verbatim>\<open>Map\<close> is the list of its entries in insertion order. Its keys are compared by
  \<^verbatim>\<open>SameValueZero\<close>: primitives by value, objects and arrays by identity. Values are trees
  without sharing, so two occurrences of an object or an array are never the same key.
\<close>

fun is_primitive :: "jsval \<Rightarrow> bool" where
  "is_primitive (JArr xs) = False"
| "is_primitive (JObj ps) = False"
| "is_primitive v = True"

definition same_value_zero :: "jsval \<Rightarrow> jsval \<Rightarrow> bool" where
  "same_value_zero a b = (is_primitive a \<and> a = b)"

fun map_get :: "jsval \<Rightarrow> (jsval \<times> jsval) list \<Rightarrow> jsval option" where
  "map_get k [] = None"
| "map_get k ((k', v) # m) = (if same_value_zero k' k then Some v else map_get k m)"

fun map_set :: "jsval \<Rightarrow> jsval \<Rightarrow> (jsval \<times> jsval) list \<Rightarrow> (jsval \<times> jsval) list" where
  "map_set k v [] = [(k, v)]"
| "map_set k v ((k', v') # m) =
     (if same_value_zero k' k then (k', v) # m else (k', v') # map_set k v m)"

text \<open>The body of the \<^verbatim>\<open>forEach\<close> callback:
  \<^verbatim>\<open>if (!map.has(itemKey) || item.timestamp > map.get(itemKey).timestamp) map.set(itemKey, item)\<close>.\<close>

definition merge_item :: "string \<Rightarrow> jsval \<Rightarrow> (jsval \<times> jsval) list \<Rightarrow> js_error + (jsval \<times> jsval) list" where
  "merge_item key item m =
     (case get_prop item key of
        Inl e \<Rightarrow> Inl e
      | Inr itemKey \<Rightarrow>
          (case map_get itemKey m of
             None \<Rightarrow> Inr (map_set itemKey item m)
           | Some kept \<Rightarrow>
               (case get_prop item ''timestamp'' of
                  Inl e \<Rightarrow> Inl e
                | Inr t \<Rightarrow>
                    (case get_prop kept ''timestamp'' of
                       Inl e \<Rightarrow> Inl e
                     | Inr t' \<Rightarrow> if js_gt t t' then Inr (map_set itemKey item m) else Inr m))))"

fun merge_items :: "string \<Rightarrow> jsval list \<Rightarrow> (jsval \<times> jsval) list \<Rightarrow> js_error + (jsval \<times> jsval) list" where
  "merge_items key [] m = Inr m"
| "merge_items key (item # items) m =
     (case merge_item key item m of
        Inl e \<Rightarrow> Inl e
      | Inr m' \<Rightarrow> merge_items key items m')"

definition mergeArrays :: "jsval \<Rightarrow> jsval \<Rightarrow> string \<Rightarrow> js_error + jsval list" where
  "mergeArrays arr1 arr2 key =
     (case spread_iter arr1 of
        Inl e \<Rightarrow> Inl e
      | Inr xs \<Rightarrow>
          (case spread_iter arr2 of
             Inl e \<Rightarrow> Inl e
           | Inr ys \<Rightarrow>
               (case merge_items key (xs @ ys) [] of
                  Inl e \<Rightarrow> Inl e
                | Inr m \<Rightarrow> Inr (map snd m))))"

text \<open>One of the three blocks of \<^verbatim>\<open>mergeData\<close>:
  \<^verbatim>\<open>if (local[name] && cloud[name]) merged[name] = this.mergeArrays(local[name], cloud[name], key)\<close>.\<close>

definition merge_collection ::
  "jsval \<Rightarrow> jsval \<Rightarrow> string \<Rightarrow> string \<Rightarrow> (string \<times> jsval) list \<Rightarrow> js_error + (string \<times> jsval) list" where
  "merge_collection local cloud name key merged =
     (case get_prop local name of
        Inl e \<Rightarrow> Inl e
      | Inr l \<Rightarrow>
          if \<not> truthy l then Inr merged
          else
            (case get_prop cloud name of
               Inl e \<Rightarrow> Inl e
             | Inr c \<Rightarrow>
                 if \<not> truthy c then Inr merged
                 else
                   (case mergeArrays l c key of
                      Inl e \<Rightarrow> Inl e
                    | Inr arr \<Rightarrow> Inr (set_prop name (JArr arr) merged))))"

definition mergeData :: "jsval \<Rightarrow> jsval \<Rightarrow> js_error + jsval" where
  "mergeData local cloud =
     (case merge_collection local cloud ''manualTransactions'' ''id'' (spread_props cloud) of
        Inl e \<Rightarrow> Inl e
      | Inr m1 \<Rightarrow>
     (case merge_collection local cloud ''activeLoans'' ''id'' m1 of
        Inl e \<Rightarrow> Inl e
      | Inr m2 \<Rightarrow>
     (case merge_collection local cloud ''futureIncomes'' ''desc'' m2 of
        Inl e \<Rightarrow> Inl e
      | Inr m3 \<Rightarrow>
     (case get_prop local ''currentBalance'' of
        Inl e \<Rightarrow> Inl e
      | Inr balance \<Rightarrow>
          Inr (JObj (if balance \<noteq> JUndefined then set_prop ''currentBalance'' balance m3 else m3))))))"

section \<open>The sync manager and its environment\<close>

text \<open>
  One record holds the fields of the \<^verbatim>\<open>SyncManager\<close> instance that the methods below read
  or write (\<^verbatim>\<open>binId\<close>, \<^verbatim>\<open>apiKey\<close>, \<^verbatim>\<open>isSyncing\<close>, \<^verbatim>\<open>lastSyncHash\<close>, \<^verbatim>\<open>retryAttempts\<close>),
  the \<^verbatim>\<open>dbManager\<close> singleton (\<^verbatim>\<open>isReady\<close>, the \<^verbatim>\<open>syncQueue\<close> object store and its key
  generator) and the platform: the remote end as the outcome of the \<open>n\<close>-th \<^verbatim>\<open>fetch\<close>, the log
  of the requests sent and of the delays slept, the clock, its ISO rendering and
  \<^verbatim>\<open>navigator.userAgent\<close>. \<^verbatim>\<open>maxRetries\<close>, \<^verbatim>\<open>retryDelay\<close> and \<^verbatim>\<open>baseUrl\<close> are set by the
  constructor and never written again; they are constants.
\<close>

record response =
  status :: nat
  statusText :: string
  json_body :: "jsval option"  \<comment> \<open>\<open>None\<close>: the body is not JSON, \<^verbatim>\<open>response.json()\<close> rejects\<close>

datatype fetch_outcome = Rejects js_error | Resolves response

record request =
  req_method :: string
  req_url :: string
  req_headers :: "(string \<times> string) list"
  req_body :: "string option"

record log_entry =
  sent :: request
  while_syncing :: bool  \<comment> \<open>the value of \<^verbatim>\<open>isSyncing\<close> when the request was sent\<close>

record queue_entry =
  op_id :: nat
  op_type :: string
  op_data :: jsval
  op_error :: string
  op_timestamp :: int
  synced :: bool
  syncedAt :: "int option"

record world =
  binId :: string
  apiKey :: string
  isSyncing :: bool
  lastSyncHash :: "string option"
  retryAttempts :: nat
  net :: "nat \<Rightarrow> fetch_outcome"
  requests :: "log_entry list"
  sleeps :: "nat list"
  now :: int
  toISOString :: "int \<Rightarrow> string"
  userAgent :: string
  dbReady :: bool
  syncQueue :: "queue_entry list"
  nextKey :: nat

definition maxRetries :: nat where
  "maxRetries = 3"

definition retryDelay :: nat where
  "retryDelay = 2000"

definition baseUrl :: string where
  "baseUrl = ''https://api.jsonbin.io/v3/b''"

definition fetch :: "world \<Rightarrow> request \<Rightarrow> fetch_outcome \<times> world" where
  \<comment> \<open>the platform's \<^verbatim>\<open>fetch\<close>: the request is logged, the remote end decides the outcome\<close>
  "fetch w req =
     (net w (length (requests w)),
      w\<lparr>requests := requests w @ [\<lparr>sent = req, while_syncing = isSyncing w\<rparr>]\<rparr>)"

definition sleep :: "nat \<Rightarrow> world \<Rightarrow> world" where
  \<comment> \<open>\<^verbatim>\<open>setTimeout(resolve, ms)\<close>: the delay is logged and the clock moves on by it\<close>
  "sleep ms w = w\<lparr>sleeps := sleeps w @ [ms], now := now w + int ms\<rparr>"

text \<open>
  \<^verbatim>\<open>fetchWithRetry(url, options, attempt = 1)\<close>. The attempt number is at least 1: the
  default is 1 and the method only calls itself with \<^verbatim>\<open>attempt + 1\<close>.
\<close>

function fetchWithRetry :: "world \<Rightarrow> request \<Rightarrow> nat \<Rightarrow> (js_error + response) \<times> world" where
  "fetchWithRetry w req attempt =
     (case fetch w req of
        (Resolves response, w1) \<Rightarrow>
          if status response \<ge> 500 \<and> attempt < maxRetries
          then fetchWithRetry (sleep (retryDelay * 2 ^ (attempt - 1)) w1) req (attempt + 1)
          else (Inr response, w1)
      | (Rejects error, w1) \<Rightarrow>
          if attempt < maxRetries
          then fetchWithRetry (sleep (retryDelay * 2 ^ (attempt - 1)) w1) req (attempt + 1)
          else (Inl error, w1))"
  by pat_completeness auto
termination
  by (relation "measure (\<lambda>(w, req, attempt). maxRetries - attempt)") auto

declare fetchWithRetry.simps [simp del]

definition ok :: "response \<Rightarrow> bool" where
  "ok r = (200 \<le> status r \<and> status r \<le> 299)"

definition http_error :: "response \<Rightarrow> js_error" where
  "http_error r = Error (''HTTP '' @ nat_to_string (status r) @ '': '' @ statusText r)"

definition get_request :: "world \<Rightarrow> request" where
  "get_request w =
     \<lparr>req_method = ''GET'',
      req_url = baseUrl @ ''/'' @ binId w @ ''/latest'',
      req_headers = [(''X-Master-Key'', apiKey w), (''X-Bin-Meta'', ''false'')],
      req_body = None\<rparr>"

definition put_request :: "world \<Rightarrow> jsval \<Rightarrow> request" where
  "put_request w payload =
     \<lparr>req_method = ''PUT'',
      req_url = baseUrl @ ''/'' @ binId w,
      req_headers = [(''Content-Type'', ''application/json''), (''X-Master-Key'', apiKey w)],
      req_body = stringify payload\<rparr>"

definition loadFromCloud :: "world \<Rightarrow> (js_error + jsval) \<times> world" where
  "loadFromCloud w =
     (case fetchWithRetry w (get_request w) 1 of
        (Inl error, w1) \<Rightarrow> (Inl error, w1)
      | (Inr response, w1) \<Rightarrow>
          if \<not> ok response then (Inl (http_error response), w1)
          else
            (case json_body response of
               None \<Rightarrow> (Inl (SyntaxError ''Unexpected token in JSON''), w1)
             | Some data \<Rightarrow>
                 (case hashData data of
                    Inl error \<Rightarrow> (Inl error, w1)
                  | Inr h \<Rightarrow> (Inr data, w1\<lparr>lastSyncHash := Some h\<rparr>))))"

subsection \<open>The pending-operation store (dbManager)\<close>

definition addToSyncQueue :: "string \<Rightarrow> jsval \<Rightarrow> string \<Rightarrow> world \<Rightarrow> world" where
  \<comment> \<open>\<^verbatim>\<open>add('syncQueue', {...operation, timestamp: Date.now(), synced: false})\<close>; the store
      assigns the key\<close>
  "addToSyncQueue typ data err w =
     w\<lparr>syncQueue := syncQueue w @
          [\<lparr>op_id = nextKey w, op_type = typ, op_data = data, op_error = err,
            op_timestamp = now w, synced = False, syncedAt = None\<rparr>],
       nextKey := nextKey w + 1\<rparr>"

text \<open>
  The queue is an IndexedDB object store (\<^verbatim>\<open>syncQueue\<close>, key path \<^verbatim>\<open>id\<close>) with an index
  \<^verbatim>\<open>synced\<close> on the property of that name. What \<^verbatim>\<open>getByIndex\<close> gives is decided by
  IndexedDB's rules on keys: a key is a number, a string, a date, a binary buffer or an array
  of keys; a record whose index key path gives no key is left out of the index; and
  \<^verbatim>\<open>index.getAll(value)\<close> throws a \<^verbatim>\<open>DataError\<close> when \<^verbatim>\<open>value\<close> is neither a key nor
  \<^verbatim>\<open>undefined\<close> or \<^verbatim>\<open>null\<close> (which ask for the whole index). The throw happens inside the
  promise executor of \<^verbatim>\<open>getByIndex\<close>, so the promise rejects. Among the values of the model
  the keys are the numbers, the strings and the arrays of keys.
\<close>

fun valid_key :: "jsval \<Rightarrow> bool" where
  "valid_key (JNum n) = True"
| "valid_key (JStr s) = True"
| "valid_key (JArr xs) = list_all valid_key xs"
| "valid_key v = False"

definition synced_key :: "queue_entry \<Rightarrow> jsval" where
  \<comment> \<open>what the key path \<^verbatim>\<open>synced\<close> reads in a record\<close>
  "synced_key e = JBool (synced e)"

definition synced_index :: "world \<Rightarrow> queue_entry list" where
  \<comment> \<open>the records the index \<^verbatim>\<open>synced\<close> holds\<close>
  "synced_index w = filter (\<lambda>e. valid_key (synced_key e)) (syncQueue w)"

definition data_error :: js_error where
  "data_error = DOMException ''DataError'' ''The parameter is not a valid key.''"

definition getByIndex_synced :: "jsval \<Rightarrow> world \<Rightarrow> js_error + queue_entry list" where
  \<comment> \<open>\<^verbatim>\<open>getByIndex('syncQueue', 'synced', value)\<close>\<close>
  "getByIndex_synced v w =
     (if v = JUndefined \<or> v = JNull then Inr (synced_index w)
      else if \<not> valid_key v then Inl data_error
      else Inr (filter (\<lambda>e. synced_key e = v) (synced_index w)))"

definition getPendingSyncOperations :: "world \<Rightarrow> js_error + queue_entry list" where
  \<comment> \<open>\<^verbatim>\<open>getByIndex('syncQueue', 'synced', false)\<close>\<close>
  "getPendingSyncOperations w = getByIndex_synced (JBool False) w"

definition markAsSynced :: "nat \<Rightarrow> world \<Rightarrow> world" where
  \<comment> \<open>\<^verbatim>\<open>get\<close> by key, set the two fields, \<^verbatim>\<open>put\<close> the record back under its key\<close>
  "markAsSynced i w =
     (case find (\<lambda>e. op_id e = i) (syncQueue w) of
        None \<Rightarrow> w
      | Some item \<Rightarrow>
          (let item' = item\<lparr>synced := True, syncedAt := Some (now w)\<rparr>
           in w\<lparr>syncQueue := map (\<lambda>e. if op_id e = op_id item' then item' else e) (syncQueue w)\<rparr>))"

definition clearSyncedOperations :: "world \<Rightarrow> world" where
  \<comment> \<open>every entry whose \<^verbatim>\<open>synced\<close> is true is deleted\<close>
  "clearSyncedOperations w = w\<lparr>syncQueue := filter (\<lambda>e. \<not> synced e) (syncQueue w)\<rparr>"

subsection \<open>saveToCloud\<close>

definition sync_meta :: "world \<Rightarrow> jsval" where
  "sync_meta w =
     JObj [(''lastSync'', JStr (toISOString w (now w))),
           (''version'', JStr ''1.0.0''),
           (''device'', JStr (take 50 (userAgent w)))]"

definition make_payload :: "world \<Rightarrow> jsval \<Rightarrow> jsval" where
  \<comment> \<open>\<^verbatim>\<open>{ ...data, _meta: { lastSync, version, device } }\<close>\<close>
  "make_payload w data = JObj (set_prop ''_meta'' (sync_meta w) (spread_props data))"

definition save_try :: "world \<Rightarrow> jsval \<Rightarrow> (js_error + bool) \<times> world" where
  \<comment> \<open>the \<^verbatim>\<open>try\<close> block of \<^verbatim>\<open>saveToCloud\<close>\<close>
  "save_try w data =
     (let payload = make_payload w data in
      case fetchWithRetry w (put_request w payload) 1 of
        (Inl error, w1) \<Rightarrow> (Inl error, w1)
      | (Inr response, w1) \<Rightarrow>
          if \<not> ok response then (Inl (http_error response), w1)
          else
            (case hashData data of
               Inl error \<Rightarrow> (Inl error, w1)
             | Inr h \<Rightarrow> (Inr True, w1\<lparr>lastSyncHash := Some h, retryAttempts := 0\<rparr>)))"

definition saveToCloud :: "world \<Rightarrow> jsval \<Rightarrow> (js_error + bool) \<times> world" where
  "saveToCloud w data =
     (if isSyncing w then (Inr False, w)
      else
        (case save_try (w\<lparr>isSyncing := True\<rparr>) data of
           (Inr b, w1) \<Rightarrow> (Inr b, w1\<lparr>isSyncing := False\<rparr>)
         | (Inl error, w1) \<Rightarrow>
             (let w2 = (if dbReady w1 then addToSyncQueue ''save'' data (message error) w1 else w1)
              in (Inl error, w2\<lparr>isSyncing := False\<rparr>))))"

subsection \<open>syncData\<close>

datatype sync_result =
    AlreadySyncing       \<comment> \<open>\<^verbatim>\<open>{ success: false, reason: 'already_syncing' }\<close>\<close>
  | NoChanges            \<comment> \<open>\<^verbatim>\<open>{ success: true, action: 'no_changes' }\<close>\<close>
  | Uploaded             \<comment> \<open>\<^verbatim>\<open>{ success: true, action: 'uploaded' }\<close>\<close>
  | Downloaded jsval     \<comment> \<open>\<^verbatim>\<open>{ success: true, action: 'downloaded', data }\<close>\<close>
  | Merged jsval         \<comment> \<open>\<^verbatim>\<open>{ success: true, action: 'merged', data }\<close>\<close>
  | Failed string        \<comment> \<open>\<^verbatim>\<open>{ success: false, error }\<close>\<close>

definition last_sync :: "jsval \<Rightarrow> js_error + jsval" where
  \<comment> \<open>\<^verbatim>\<open>data._meta?.lastSync || 0\<close>\<close>
  "last_sync data =
     (case get_prop data ''_meta'' of
        Inl e \<Rightarrow> Inl e
      | Inr meta \<Rightarrow>
          (let v = (if meta = JUndefined \<or> meta = JNull then JUndefined
                    else (case get_prop meta ''lastSync'' of Inl e \<Rightarrow> JUndefined | Inr x \<Rightarrow> x))
           in Inr (if truthy v then v else JNum 0)))"

definition resolve :: "world \<Rightarrow> jsval \<Rightarrow> jsval \<Rightarrow> (js_error + sync_result) \<times> world" where
  \<comment> \<open>step 3 of \<^verbatim>\<open>syncData\<close>: which version is more recent\<close>
  "resolve w localData cloudData =
     (case last_sync localData of
        Inl e \<Rightarrow> (Inl e, w)
      | Inr localTimestamp \<Rightarrow>
     (case last_sync cloudData of
        Inl e \<Rightarrow> (Inl e, w)
      | Inr cloudTimestamp \<Rightarrow>
          if js_gt localTimestamp cloudTimestamp then
            (case saveToCloud w localData of
               (Inl e, w1) \<Rightarrow> (Inl e, w1)
             | (Inr b, w1) \<Rightarrow> (Inr Uploaded, w1))
          else if js_gt cloudTimestamp localTimestamp then
            (Inr (Downloaded cloudData), w)
          else
            (case mergeData localData cloudData of
               Inl e \<Rightarrow> (Inl e, w)
             | Inr merged \<Rightarrow>
                 (case saveToCloud w merged of
                    (Inl e, w1) \<Rightarrow> (Inl e, w1)
                  | (Inr b, w1) \<Rightarrow> (Inr (Merged merged), w1)))))"

definition sync_try :: "world \<Rightarrow> jsval \<Rightarrow> (js_error + sync_result) \<times> world" where
  \<comment> \<open>the \<^verbatim>\<open>try\<close> block of \<^verbatim>\<open>syncData\<close>\<close>
  "sync_try w localData =
     (case loadFromCloud w of
        (Inl e, w1) \<Rightarrow> (Inl e, w1)
      | (Inr cloudData, w1) \<Rightarrow>
          (case hashData localData of
             Inl e \<Rightarrow> (Inl e, w1)
           | Inr localHash \<Rightarrow>
               (case hashData cloudData of
                  Inl e \<Rightarrow> (Inl e, w1)
                | Inr cloudHash \<Rightarrow>
                    if localHash = cloudHash then (Inr NoChanges, w1)
                    else resolve w1 localData cloudData)))"

definition syncData :: "world \<Rightarrow> jsval \<Rightarrow> sync_result \<times> world" where
  "syncData w localData =
     (if isSyncing w then (AlreadySyncing, w)
      else
        (case sync_try (w\<lparr>isSyncing := True\<rparr>) localData of
           (Inr r, w1) \<Rightarrow> (r, w1\<lparr>isSyncing := False\<rparr>)
         | (Inl error, w1) \<Rightarrow> (Failed (message error), w1\<lparr>isSyncing := False\<rparr>)))"

subsection \<open>processSyncQueue\<close>

definition process_operation :: "queue_entry \<Rightarrow> world \<Rightarrow> world" where
  \<comment> \<open>the body of the \<^verbatim>\<open>for\<close> loop, with its \<^verbatim>\<open>try\<close> and \<^verbatim>\<open>catch\<close>\<close>
  "process_operation operation w =
     (if op_type operation = ''save'' then
        (case saveToCloud w (op_data operation) of
           (Inl error, w1) \<Rightarrow> w1
         | (Inr b, w1) \<Rightarrow> markAsSynced (op_id operation) w1)
      else markAsSynced (op_id operation) w)"

fun process_operations :: "queue_entry list \<Rightarrow> world \<Rightarrow> world" where
  "process_operations [] w = w"
| "process_operations (operation # pending) w =
     process_operations pending (process_operation operation w)"

definition processSyncQueue :: "world \<Rightarrow> js_error + world" where
  \<comment> \<open>\<^verbatim>\<open>Inl\<close>: the promise of \<^verbatim>\<open>processSyncQueue\<close> rejects; nothing was changed before\<close>
  "processSyncQueue w =
     (if \<not> dbReady w then Inr w
      else
        (case getPendingSyncOperations w of
           Inl error \<Rightarrow> Inl error
         | Inr pending \<Rightarrow>
             if length pending = 0 then Inr w
             else Inr (clearSyncedOperations (process_operations pending w))))"

section \<open>Vocabulary of the statements\<close>

text \<open>What a request leaves in the log, and the two readings of one \<^verbatim>\<open>fetch\<close> outcome
  that \<^verbatim>\<open>fetchWithRetry\<close> distinguishes: is it retried, and what does it give the caller.\<close>

definition logged :: "world \<Rightarrow> request \<Rightarrow> log_entry" where
  "logged w req = \<lparr>sent = req, while_syncing = isSyncing w\<rparr>"

definition retriable :: "fetch_outcome \<Rightarrow> bool" where
  \<comment> \<open>the two retry tests of the code: the \<^verbatim>\<open>catch\<close> branch, and \<^verbatim>\<open>response.status >= 500\<close>\<close>
  "retriable out = (case out of Rejects e \<Rightarrow> True | Resolves r \<Rightarrow> status r \<ge> 500)"

definition outcome_result :: "fetch_outcome \<Rightarrow> js_error + response" where
  "outcome_result out = (case out of Rejects e \<Rightarrow> Inl e | Resolves r \<Rightarrow> Inr r)"

definition is_5xx :: "nat \<Rightarrow> bool" where
  "is_5xx s = (500 \<le> s \<and> s \<le> 599)"

definition retry_wanted :: "fetch_outcome \<Rightarrow> bool" where
  \<comment> \<open>the spec's retry condition: the transport throws, or the status is in the 5xx range\<close>
  "retry_wanted out = (case out of Rejects e \<Rightarrow> True | Resolves r \<Rightarrow> is_5xx (status r))"

definition valid_status :: "fetch_outcome \<Rightarrow> bool" where
  \<comment> \<open>HTTP status codes end at 599\<close>
  "valid_status out = (case out of Rejects e \<Rightarrow> True | Resolves r \<Rightarrow> status r \<le> 599)"

definition backoff :: "nat \<Rightarrow> nat" where
  \<comment> \<open>the delay before attempt \<open>n + 1\<close>\<close>
  "backoff n = 2000 * 2 ^ (n - 1)"

definition after_attempts :: "world \<Rightarrow> request \<Rightarrow> nat \<Rightarrow> world" where
  \<comment> \<open>the world once \<open>k\<close> attempts of one request were made: \<open>k\<close> log entries, and the
      delays slept between them\<close>
  "after_attempts w req k =
     w\<lparr>requests := requests w @ replicate k (logged w req),
       sleeps := sleeps w @ map backoff [1..<k],
       now := now w + int (sum_list (map backoff [1..<k]))\<rparr>"

text \<open>What a save that passes the guard does: the world after the \<open>k\<close> attempts of the one
  PUT request, then the bookkeeping of the success or of the failure.\<close>

definition save_failed :: "world \<Rightarrow> jsval \<Rightarrow> js_error \<Rightarrow> (js_error + bool) \<times> world" where
  "save_failed w1 data e =
     (Inl e, (if dbReady w1 then addToSyncQueue ''save'' data (message e) w1 else w1)\<lparr>isSyncing := False\<rparr>)"

subsection \<open>Concrete inputs\<close>

definition example_world :: "(nat \<Rightarrow> fetch_outcome) \<Rightarrow> world" where
  "example_world remote =
     \<lparr>binId = ''bin1'', apiKey = ''key1'', isSyncing = False, lastSyncHash = None,
      retryAttempts = 0, net = remote, requests = [], sleeps = [], now = 1000,
      toISOString = (\<lambda>t. ''2024-01-01T00:00:00.000Z''), userAgent = ''Mozilla/5.0'',
      dbReady = True, syncQueue = [], nextKey = 1\<rparr>"

definition http_response :: "nat \<Rightarrow> string \<Rightarrow> jsval option \<Rightarrow> fetch_outcome" where
  "http_response s t b = Resolves \<lparr>status = s, statusText = t, json_body = b\<rparr>"

definition unavailable_twice :: "nat \<Rightarrow> fetch_outcome" where
  \<comment> \<open>the remote of the spec's retry test: 503 twice, then 200\<close>
  "unavailable_twice n =
     (if n < 2 then http_response 503 ''Service Unavailable'' None
      else http_response 200 ''OK'' (Some (JObj [])))"

definition always_ok :: "jsval \<Rightarrow> nat \<Rightarrow> fetch_outcome" where
  \<comment> \<open>a remote that answers every request with 200 and the given document\<close>
  "always_ok doc n = http_response 200 ''OK'' (Some doc)"

definition always_unavailable :: "nat \<Rightarrow> fetch_outcome" where
  "always_unavailable n = http_response 503 ''Service Unavailable'' None"

definition local_newer :: jsval where
  "local_newer = JObj [(''_meta'', JObj [(''lastSync'', JNum 2)])]"

definition cloud_older :: jsval where
  "cloud_older = JObj [(''_meta'', JObj [(''lastSync'', JNum 1)])]"

definition balance_100 :: jsval where
  "balance_100 = JObj [(''currentBalance'', JNum 100)]"

subsection \<open>Items of a mergeable collection\<close>

definition key_of :: "string \<Rightarrow> jsval \<Rightarrow> jsval" where
  \<comment> \<open>\<^verbatim>\<open>item[key]\<close> of an item that can be read\<close>
  "key_of key item = (case get_prop item key of Inl e \<Rightarrow> JUndefined | Inr k \<Rightarrow> k)"

definition stamp_of :: "jsval \<Rightarrow> jsval" where
  \<comment> \<open>\<^verbatim>\<open>item.timestamp\<close> of an item that can be read\<close>
  "stamp_of item = key_of ''timestamp'' item"

definition keyed :: "string \<Rightarrow> jsval list \<Rightarrow> bool" where
  \<comment> \<open>every item can be read (it is neither \<^verbatim>\<open>null\<close> nor \<^verbatim>\<open>undefined\<close>) and its key is a
      primitive value\<close>
  "keyed key items =
     list_all (\<lambda>item. case get_prop item key of Inl e \<Rightarrow> False | Inr k \<Rightarrow> is_primitive k) items"

definition prim_keys :: "(jsval \<times> jsval) list \<Rightarrow> bool" where
  "prim_keys m = (\<forall>k \<in> fst ` set m. is_primitive k)"

text \<open>The entries of the Map while \<^verbatim>\<open>mergeArrays\<close> runs: each value is stored under its
  own key, the keys are primitive and pairwise distinct.\<close>

definition entries_ok :: "string \<Rightarrow> (jsval \<times> jsval) list \<Rightarrow> bool" where
  "entries_ok key m =
     (prim_keys m \<and> distinct (map fst m) \<and> (\<forall>(k, v) \<in> set m. get_prop v key = Inr k))"

definition collections :: "(string \<times> string) list" where
  \<comment> \<open>the collections \<^verbatim>\<open>mergeData\<close> merges, each with its merge key\<close>
  "collections = [(''manualTransactions'', ''id''), (''activeLoans'', ''id''), (''futureIncomes'', ''desc'')]"

definition mergeable_at :: "(string \<times> jsval) list \<Rightarrow> (string \<times> jsval) list \<Rightarrow> string \<times> string \<Rightarrow> bool" where
  \<comment> \<open>a collection that is present (truthy) on both sides is an array of keyed items on both\<close>
  "mergeable_at lp cp c =
     (let l = lookup_prop lp (fst c); r = lookup_prop cp (fst c) in
      if truthy l \<and> truthy r
      then (case (l, r) of (JArr xs, JArr ys) \<Rightarrow> keyed (snd c) xs \<and> keyed (snd c) ys | _ \<Rightarrow> False)
      else True)"

definition snapshots :: "jsval \<Rightarrow> jsval \<Rightarrow> bool" where
  \<comment> \<open>both values are objects whose mergeable collections are well formed\<close>
  "snapshots local cloud =
     (case (local, cloud) of
        (JObj lp, JObj cp) \<Rightarrow> list_all (mergeable_at lp cp) collections
      | _ \<Rightarrow> False)"

definition pick :: "string \<Rightarrow> jsval list \<Rightarrow> jsval \<Rightarrow> jsval" where
  \<comment> \<open>what stands in the merged collection in the place of the local item \<open>x\<close>: the cloud item
      of the same key if its time stamp is greater, else \<open>x\<close>\<close>
  "pick key ys x =
     (case find (\<lambda>y. key_of key y = key_of key x) ys of
        None \<Rightarrow> x
      | Some y \<Rightarrow> if js_gt (stamp_of y) (stamp_of x) then y else x)"

definition merged_items :: "string \<Rightarrow> jsval list \<Rightarrow> jsval list \<Rightarrow> jsval list" where
  \<comment> \<open>the local items in their order, each replaced where the cloud is newer, then the cloud
      items whose key the local side does not have\<close>
  "merged_items key xs ys =
     map (pick key ys) xs @ filter (\<lambda>y. key_of key y \<notin> key_of key ` set xs) ys"

definition merged_collection ::
  "(string \<times> jsval) list \<Rightarrow> (string \<times> jsval) list \<Rightarrow> string \<Rightarrow> string \<Rightarrow> (string \<times> jsval) list \<Rightarrow>
   (string \<times> jsval) list" where
  \<comment> \<open>the properties one block of \<^verbatim>\<open>mergeData\<close> leaves, for two objects\<close>
  "merged_collection lp cp name key merged =
     (if truthy (lookup_prop lp name) \<and> truthy (lookup_prop cp name)
      then (case mergeArrays (lookup_prop lp name) (lookup_prop cp name) key of
              Inl e \<Rightarrow> merged
            | Inr arr \<Rightarrow> set_prop name (JArr arr) merged)
      else merged)"

definition tx :: "int \<Rightarrow> int \<Rightarrow> jsval" where
  \<comment> \<open>a transaction \<^verbatim>\<open>{id, timestamp}\<close>\<close>
  "tx i t = JObj [(''id'', JNum i), (''timestamp'', JNum t)]"

definition tx_from :: "int \<Rightarrow> int \<Rightarrow> string \<Rightarrow> jsval" where
  \<comment> \<open>a transaction \<^verbatim>\<open>{id, timestamp, note}\<close>\<close>
  "tx_from i t note = JObj [(''id'', JNum i), (''timestamp'', JNum t), (''note'', JStr note)]"

definition spec_local :: jsval where
  \<comment> \<open>the local snapshot of the spec's merge example, with a balance\<close>
  "spec_local = JObj [(''manualTransactions'', JArr [tx 1 5, tx 2 1]), (''currentBalance'', JNum 100)]"

definition spec_cloud :: jsval where
  "spec_cloud = JObj [(''manualTransactions'', JArr [tx 2 9, tx 3 2]), (''currentBalance'', JNum 50)]"

definition tie_local :: jsval where
  "tie_local = JObj [(''manualTransactions'', JArr [tx_from 1 5 ''local''])]"

definition tie_cloud :: jsval where
  "tie_cloud = JObj [(''manualTransactions'', JArr [tx_from 1 5 ''cloud''])]"

subsection \<open>The pending-operation queue\<close>

definition queued :: "nat \<Rightarrow> string \<Rightarrow> jsval \<Rightarrow> queue_entry" where
  \<comment> \<open>a pending entry of the store\<close>
  "queued i typ data =
     \<lparr>op_id = i, op_type = typ, op_data = data, op_error = ''offline'', op_timestamp = 1,
      synced = False, syncedAt = None\<rparr>"

definition queue_world :: world where
  \<comment> \<open>a ready store with two pending operations, one of them not a save, and a remote that
      answers 200\<close>
  "queue_world =
     (example_world (always_ok (JObj [])))
       \<lparr>syncQueue := [queued 1 ''delete'' JNull, queued 2 ''save'' balance_100], nextKey := 3\<rparr>"

section \<open>The fingerprint\<close>

lemma take_bit_to_int32: "take_bit 32 (to_int32 b) = take_bit 32 b"
  by (simp add: to_int32_def take_bit_signed_take_bit)

lemma to_int32_eq_iff: "to_int32 a = to_int32 b \<longleftrightarrow> take_bit 32 a = take_bit 32 b"
  by (simp add: to_int32_def signed_take_bit_eq_iff_take_bit_eq)

lemma to_int32_idem: "to_int32 (to_int32 a) = to_int32 a"
  by (simp add: to_int32_def)

lemma to_int32_mult_left: "to_int32 (to_int32 b * c) = to_int32 (b * c)"
  unfolding to_int32_eq_iff by (metis take_bit_mult take_bit_to_int32)

lemma to_int32_add_left: "to_int32 (to_int32 b + c) = to_int32 (b + c)"
  unfolding to_int32_eq_iff by (metis take_bit_add take_bit_to_int32)

lemma to_int32_range: "- (2 ^ 31) \<le> to_int32 x \<and> to_int32 x < 2 ^ 31"
  using signed_take_bit_int_greater_eq_minus_exp [of 31 x] signed_take_bit_int_less_exp [of 31 x]
  by (simp add: to_int32_def)

lemma to_int32_mult_add: "to_int32 (to_int32 h * k + a) = to_int32 (h * k + a)"
proof -
  have "to_int32 (to_int32 h * k + a) = to_int32 (to_int32 (to_int32 h * k) + a)"
    by (simp only: to_int32_add_left)
  also have "\<dots> = to_int32 (to_int32 (h * k) + a)"
    by (simp only: to_int32_mult_left)
  also have "\<dots> = to_int32 (h * k + a)"
    by (rule to_int32_add_left)
  finally show ?thesis .
qed

text \<open>One round of the loop is the spec's \<open>hash * 31 + charCode\<close>, truncated to 32 bits.\<close>

lemma hash_step_31: "hash_step h c = to_int32 (h * 31 + c)"
proof -
  have "hash_step h c = to_int32 (to_int32 (to_int32 h * 32) - h + c)"
    by (simp add: hash_step_def shl32_def and32_def Let_def push_bit_eq_mult to_int32_idem)
  also have "\<dots> = to_int32 (to_int32 (to_int32 h * 32) + (c - h))"
    by (rule arg_cong [where f = to_int32]) simp
  also have "\<dots> = to_int32 (to_int32 h * 32 + (c - h))"
    by (rule to_int32_add_left)
  also have "\<dots> = to_int32 (h * 32 + (c - h))"
    by (rule to_int32_mult_add)
  also have "\<dots> = to_int32 (h * 31 + c)"
    by (rule arg_cong [where f = to_int32]) simp
  finally show ?thesis .
qed

lemma foldl_hash_step: "foldl hash_step h cs = rolling31 h cs"
  by (induction cs arbitrary: h) (simp_all add: hash_step_31)

lemma rolling31_range:
  "- (2 ^ 31) \<le> h \<Longrightarrow> h < 2 ^ 31 \<Longrightarrow> - (2 ^ 31) \<le> rolling31 h cs \<and> rolling31 h cs < 2 ^ 31"
proof (induction cs arbitrary: h)
  case Nil
  then show ?case by simp
next
  case (Cons c cs)
  show ?case
    using Cons.IH [of "to_int32 (h * 31 + c)"] to_int32_range [of "h * 31 + c"] by simp
qed

lemma deepCopy_id: "deepCopy v = v"
  by (induction v) (auto intro!: map_idI)

lemma hashData_rolling:
  "stringify s = Some str \<Longrightarrow> hashData s = Inr (int_to_string (rolling31 0 (char_codes str)))"
  by (simp add: hashData_def hash_string_def foldl_hash_step)

text \<open>
  C7. The fingerprint is computed from the serialized form alone, by the rolling hash
  \<open>hash * 31 + charCode\<close> truncated to a signed 32-bit integer at every step (\<^verbatim>\<open>hashData\<close>
  returns that integer in decimal): a snapshot and its deep copy have the same fingerprint, and
  two snapshots with the same serialization have the same fingerprint.
\<close>

theorem hashData_deterministic:
  "hashData (deepCopy s) = hashData s
   \<and> (stringify a = stringify b \<longrightarrow> hashData a = hashData b)
   \<and> (\<forall>str. stringify s = Some str \<longrightarrow>
         hashData s = Inr (int_to_string (rolling31 0 (char_codes str)))
         \<and> - (2 ^ 31) \<le> rolling31 0 (char_codes str) \<and> rolling31 0 (char_codes str) < 2 ^ 31)"
proof -
  have "hashData (deepCopy s) = hashData s"
    by (simp add: deepCopy_id)
  moreover have "stringify a = stringify b \<longrightarrow> hashData a = hashData b"
    by (simp add: hashData_def)
  moreover have "\<forall>str. stringify s = Some str \<longrightarrow>
         hashData s = Inr (int_to_string (rolling31 0 (char_codes str)))
         \<and> - (2 ^ 31) \<le> rolling31 0 (char_codes str) \<and> rolling31 0 (char_codes str) < 2 ^ 31"
    using rolling31_range [of 0] by (simp add: hashData_rolling)
  ultimately show ?thesis by blast
qed

lemma stringify_example: "stringify (JObj [(''a'', JNum 1)]) = Some ''{\"a\":1}''"
  by (simp add: quote_string_def quote_char_def int_to_string_def nat_to_string.simps digit_char_def)

theorem hashData_deterministic_witness:
  "hashData (deepCopy (JObj [(''a'', JNum 1)])) = hashData (JObj [(''a'', JNum 1)])
   \<and> hashData (JObj [(''a'', JNum 1)]) = hashData (JObj [(''a'', JNum 1), (''b'', JUndefined)])
   \<and> hashData (JObj [(''a'', JNum 1)]) = Inr (int_to_string (rolling31 0 (char_codes ''{\"a\":1}'')))
   \<and> rolling31 0 (char_codes ''{\"a\":1}'') < 2 ^ 31"
proof -
  have same: "stringify (JObj [(''a'', JNum 1)]) = stringify (JObj [(''a'', JNum 1), (''b'', JUndefined)])"
    by simp
  note t = hashData_deterministic [of "JObj [(''a'', JNum 1)]" "JObj [(''a'', JNum 1)]"
        "JObj [(''a'', JNum 1), (''b'', JUndefined)]"]
  have c1: "hashData (deepCopy (JObj [(''a'', JNum 1)])) = hashData (JObj [(''a'', JNum 1)])"
    using t by blast
  have c2: "hashData (JObj [(''a'', JNum 1)]) = hashData (JObj [(''a'', JNum 1), (''b'', JUndefined)])"
    using t same by blast
  have c3: "hashData (JObj [(''a'', JNum 1)]) = Inr (int_to_string (rolling31 0 (char_codes ''{\"a\":1}'')))
      \<and> rolling31 0 (char_codes ''{\"a\":1}'') < 2 ^ 31"
    using t stringify_example by blast
  show ?thesis using c1 c2 c3 by blast
qed

section \<open>Merging two collections\<close>

subsection \<open>The comparison\<close>

lemma str_less_irrefl: "\<not> str_less s s"
  by (induction s) simp_all

lemma str_less_asym: "str_less s t \<Longrightarrow> \<not> str_less t s"
  by (induction s t rule: str_less.induct) auto

lemma js_gt_irrefl: "\<not> js_gt a a"
  by (auto simp: js_gt_def str_less_irrefl split: jsval.splits option.splits)

lemma js_gt_asym: "js_gt a b \<Longrightarrow> \<not> js_gt b a"
  by (auto simp: js_gt_def split: jsval.splits option.splits dest: str_less_asym)

subsection \<open>The Map, with primitive keys\<close>

lemma prim_keys_simps [simp]:
  "prim_keys []"
  "prim_keys ((k, v) # m) = (is_primitive k \<and> prim_keys m)"
  "prim_keys (m @ m') = (prim_keys m \<and> prim_keys m')"
  by (auto simp: prim_keys_def)

lemma map_get_map_of: "prim_keys m \<Longrightarrow> map_get k m = map_of m k"
  by (induction m) (auto simp: same_value_zero_def)

lemma map_set_new:
  "prim_keys m \<Longrightarrow> k \<notin> fst ` set m \<Longrightarrow> map_set k v m = m @ [(k, v)]"
  by (induction m) (auto simp: same_value_zero_def)

lemma map_set_old:
  "prim_keys m \<Longrightarrow> distinct (map fst m) \<Longrightarrow> k \<in> fst ` set m \<Longrightarrow>
   map_set k v m = map (\<lambda>(k', x). if k' = k then (k', v) else (k', x)) m"
proof (induction m)
  case Nil
  then show ?case by simp
next
  case (Cons p m)
  obtain k' x where p: "p = (k', x)" by (cases p)
  show ?case
  proof (cases "k' = k")
    case True
    then have "k \<notin> fst ` set m" using Cons.prems p by auto
    then have "map (\<lambda>(k', x). if k' = k then (k', v) else (k', x)) m = m"
      by (intro map_idI) force
    then show ?thesis using True p Cons.prems by (simp add: same_value_zero_def)
  next
    case False
    then show ?thesis using p Cons by (auto simp: same_value_zero_def)
  qed
qed

subsection \<open>Reading items\<close>

lemma keyed_simps [simp]:
  "keyed key []"
  "keyed key (item # items) = ((\<exists>k. get_prop item key = Inr k \<and> is_primitive k) \<and> keyed key items)"
  "keyed key (items @ items') = (keyed key items \<and> keyed key items')"
  by (auto simp: keyed_def split: sum.splits)

lemma keyedD:
  "keyed key items \<Longrightarrow> item \<in> set items \<Longrightarrow>
   get_prop item key = Inr (key_of key item) \<and> is_primitive (key_of key item)"
  by (induction items) (auto simp: key_of_def)

lemma readable_any: "get_prop item a = Inr k \<Longrightarrow> get_prop item b = Inr (key_of b item)"
  by (cases item) (simp_all add: key_of_def)

lemma entries_ok_Nil [simp]: "entries_ok key []"
  by (simp add: entries_ok_def)

lemma entries_ok_lookup:
  "entries_ok key m \<Longrightarrow> map_of m k = Some x \<Longrightarrow> get_prop x key = Inr k \<and> k \<in> fst ` set m"
  by (auto simp: entries_ok_def dest!: map_of_SomeD intro: rev_image_eqI)

lemma merge_item_new:
  assumes "entries_ok key m" "get_prop item key = Inr k" "is_primitive k" "k \<notin> fst ` set m"
  shows "merge_item key item m = Inr (m @ [(k, item)])"
proof -
  have "map_of m k = None"
    using assms(4) by (simp add: map_of_eq_None_iff)
  then show ?thesis
    using assms by (simp add: merge_item_def map_get_map_of map_set_new entries_ok_def)
qed

lemma merge_item_old:
  assumes "entries_ok key m" "get_prop item key = Inr k" "map_of m k = Some x"
  shows "merge_item key item m =
     Inr (if js_gt (stamp_of item) (stamp_of x)
          then map (\<lambda>(k', x'). if k' = k then (k', item) else (k', x')) m
          else m)"
proof -
  have x: "get_prop x key = Inr k" "k \<in> fst ` set m"
    using entries_ok_lookup [OF assms(1,3)] by simp_all
  have "get_prop item ''timestamp'' = Inr (stamp_of item)"
    and "get_prop x ''timestamp'' = Inr (stamp_of x)"
    using readable_any [OF assms(2)] readable_any [OF x(1)] by (simp_all add: stamp_of_def)
  then show ?thesis
    using assms x by (simp add: merge_item_def map_get_map_of map_set_old entries_ok_def)
qed

subsection \<open>The loop of mergeArrays\<close>

lemma merge_items_append:
  "merge_items key (xs @ ys) m =
     (case merge_items key xs m of Inl e \<Rightarrow> Inl e | Inr m' \<Rightarrow> merge_items key ys m')"
  by (induction xs arbitrary: m) (simp_all split: sum.splits)

lemma entries_ok_snoc:
  "entries_ok key m \<Longrightarrow> get_prop item key = Inr k \<Longrightarrow> is_primitive k \<Longrightarrow> k \<notin> fst ` set m \<Longrightarrow>
   entries_ok key (m @ [(k, item)])"
  by (auto simp: entries_ok_def)

lemma replace_fst:
  "map fst (map (\<lambda>(k', x'). if k' = k then (k', v) else (k', x')) m) = map fst m"
  by (induction m) auto

lemma replace_keys:
  "fst ` set (map (\<lambda>(k', x'). if k' = k then (k', v) else (k', x')) m) = fst ` set m"
  using arg_cong [OF replace_fst [of k v m], of set] by (simp only: set_map)

lemma replace_vals:
  "snd ` set (map (\<lambda>(k', x'). if k' = k then (k', v) else (k', x')) m) \<subseteq> insert v (snd ` set m)"
proof
  fix z
  assume "z \<in> snd ` set (map (\<lambda>(k', x'). if k' = k then (k', v) else (k', x')) m)"
  then obtain p where p: "p \<in> set m"
    and z: "z = snd (case p of (k', x') \<Rightarrow> if k' = k then (k', v) else (k', x'))"
    by auto
  show "z \<in> insert v (snd ` set m)"
  proof (cases "fst p = k")
    case True
    then show ?thesis using z by (simp add: case_prod_beta)
  next
    case False
    then have "z = snd p" using z by (simp add: case_prod_beta)
    then show ?thesis using p by simp
  qed
qed

lemma entries_ok_replace:
  assumes "entries_ok key m" "get_prop item key = Inr k"
  shows "entries_ok key (map (\<lambda>(k', x'). if k' = k then (k', item) else (k', x')) m)"
proof -
  have keys: "map fst (map (\<lambda>(k', x'). if k' = k then (k', item) else (k', x')) m) = map fst m"
    by (induction m) auto
  have vals: "\<forall>(k', v) \<in> set (map (\<lambda>(k', x'). if k' = k then (k', item) else (k', x')) m).
      get_prop v key = Inr k'"
    using assms by (induction m) (auto simp: entries_ok_def split: if_splits)
  have "fst ` set (map (\<lambda>(k', x'). if k' = k then (k', item) else (k', x')) m) = fst ` set m"
    using keys by (metis list.set_map)
  then have p: "prim_keys (map (\<lambda>(k', x'). if k' = k then (k', item) else (k', x')) m)"
    using assms(1) by (simp add: entries_ok_def prim_keys_def)
  have d: "distinct (map fst (map (\<lambda>(k', x'). if k' = k then (k', item) else (k', x')) m))"
    unfolding keys using assms(1) by (simp add: entries_ok_def)
  show ?thesis
    unfolding entries_ok_def using p d vals by blast
qed

lemma pick_other: "key_of key x \<noteq> key_of key y \<Longrightarrow> pick key (y # ys) x = pick key ys x"
  by (auto simp: pick_def)

lemma pick_same:
  "key_of key x = key_of key y \<Longrightarrow>
   pick key (y # ys) x = (if js_gt (stamp_of y) (stamp_of x) then y else x)"
  by (simp add: pick_def)

lemma pick_absent: "key_of key x \<notin> key_of key ` set ys \<Longrightarrow> pick key ys x = x"
proof -
  assume "key_of key x \<notin> key_of key ` set ys"
  then have "find (\<lambda>y. key_of key y = key_of key x) ys = None"
    unfolding find_None_iff by (metis imageI)
  then show ?thesis by (simp add: pick_def)
qed

lemma merge_items_explicit:
  assumes "entries_ok key m" "keyed key ys" "distinct (map (key_of key) ys)"
  shows "merge_items key ys m =
     Inr (map (\<lambda>(k, x). (k, pick key ys x)) m
          @ map (\<lambda>y. (key_of key y, y)) (filter (\<lambda>y. key_of key y \<notin> fst ` set m) ys))"
  using assms
proof (induction ys arbitrary: m)
  case Nil
  have "map (\<lambda>(k, x). (k, pick key [] x)) m = m"
    by (intro map_idI) (auto simp: pick_def)
  then show ?case by simp
next
  case (Cons y ys)
  let ?k = "key_of key y"
  have y: "get_prop y key = Inr ?k" "is_primitive ?k"
    using keyedD [OF Cons.prems(2), of y] by simp_all
  have fresh: "?k \<notin> key_of key ` set ys"
    using Cons.prems(3) by simp
  have ys: "keyed key ys" "distinct (map (key_of key) ys)"
    using Cons.prems by simp_all
  have own: "\<And>k' x'. (k', x') \<in> set m \<Longrightarrow> key_of key x' = k'"
    using Cons.prems(1) by (auto simp: entries_ok_def key_of_def)
  show ?case
  proof (cases "map_of m ?k")
    case None
    then have notin: "?k \<notin> fst ` set m"
      by (simp add: map_of_eq_None_iff)
    let ?m1 = "m @ [(?k, y)]"
    have step: "merge_item key y m = Inr ?m1"
      by (rule merge_item_new [OF Cons.prems(1) y notin])
    have ok1: "entries_ok key ?m1"
      by (rule entries_ok_snoc [OF Cons.prems(1) y notin])
    have old: "map (\<lambda>(k, x). (k, pick key ys x)) m = map (\<lambda>(k, x). (k, pick key (y # ys) x)) m"
    proof (rule map_cong [OF refl])
      fix p assume p: "p \<in> set m"
      obtain k' x' where kx: "p = (k', x')" by (cases p)
      have "key_of key x' \<noteq> ?k" using own [of k' x'] p kx notin by force
      then show "(case p of (k, x) \<Rightarrow> (k, pick key ys x)) = (case p of (k, x) \<Rightarrow> (k, pick key (y # ys) x))"
        by (simp add: kx pick_other)
    qed
    have ne: "\<And>y'. y' \<in> set ys \<Longrightarrow> key_of key y' \<noteq> ?k"
      using fresh by (metis imageI)
    have rest: "filter (\<lambda>y'. key_of key y' \<notin> fst ` set ?m1) ys
        = filter (\<lambda>y'. key_of key y' \<notin> fst ` set m) ys"
      by (intro filter_cong refl) (auto dest: ne)
    have "merge_items key (y # ys) m = merge_items key ys ?m1"
      by (simp add: step)
    also have "\<dots> = Inr (map (\<lambda>(k, x). (k, pick key ys x)) ?m1
          @ map (\<lambda>y. (key_of key y, y)) (filter (\<lambda>y'. key_of key y' \<notin> fst ` set ?m1) ys))"
      by (rule Cons.IH [OF ok1 ys])
    also have "\<dots> = Inr (map (\<lambda>(k, x). (k, pick key (y # ys) x)) m
          @ map (\<lambda>y. (key_of key y, y)) (filter (\<lambda>y'. key_of key y' \<notin> fst ` set m) (y # ys)))"
      unfolding rest using notin old pick_absent [OF fresh] by simp
    finally show ?thesis .
  next
    case (Some x)
    have x: "get_prop x key = Inr ?k" "?k \<in> fst ` set m"
      using entries_ok_lookup [OF Cons.prems(1) Some] by simp_all
    have only: "\<And>x'. (?k, x') \<in> set m \<Longrightarrow> x' = x"
      using Cons.prems(1) Some by (auto simp: entries_ok_def)
    let ?m1 = "if js_gt (stamp_of y) (stamp_of x)
          then map (\<lambda>(k', x'). if k' = ?k then (k', y) else (k', x')) m else m"
    have step: "merge_item key y m = Inr ?m1"
      by (rule merge_item_old [OF Cons.prems(1) y(1) Some])
    have ok1: "entries_ok key ?m1"
      using entries_ok_replace [OF Cons.prems(1) y(1)] Cons.prems(1) by simp
    have keys1: "fst ` set ?m1 = fst ` set m"
      using replace_keys [of "key_of key y" y m] by simp
    have old: "map (\<lambda>(k, x). (k, pick key ys x)) ?m1 = map (\<lambda>(k, x). (k, pick key (y # ys) x)) m"
    proof -
      have "map (\<lambda>(k, x). (k, pick key ys x)) ?m1
          = map (\<lambda>p. if js_gt (stamp_of y) (stamp_of x) \<and> fst p = ?k
                      then (fst p, pick key ys y) else (fst p, pick key ys (snd p))) m"
        by (auto simp: case_prod_beta)
      also have "\<dots> = map (\<lambda>(k, x). (k, pick key (y # ys) x)) m"
      proof (rule map_cong [OF refl])
        fix p assume p: "p \<in> set m"
        obtain k' x' where kx: "p = (k', x')" by (cases p)
        have kk: "key_of key x' = k'" using own [of k' x'] p kx by simp
        show "(if js_gt (stamp_of y) (stamp_of x) \<and> fst p = ?k
                then (fst p, pick key ys y) else (fst p, pick key ys (snd p)))
            = (case p of (k, x) \<Rightarrow> (k, pick key (y # ys) x))"
        proof (cases "k' = ?k")
          case True
          then have xx: "x' = x" using only p kx by simp
          have "pick key ys x = x" using pick_absent [of key x ys] fresh kk True xx by simp
          moreover have "pick key ys y = y" using pick_absent [OF fresh] .
          moreover have "pick key (y # ys) x = (if js_gt (stamp_of y) (stamp_of x) then y else x)"
            using pick_same [of key x y ys] kk True xx by simp
          ultimately show ?thesis using True xx kx by simp
        next
          case False
          then show ?thesis using kk kx by (simp add: pick_other)
        qed
      qed
      finally show ?thesis .
    qed
    have "merge_items key (y # ys) m = merge_items key ys ?m1"
      by (simp add: step)
    also have "\<dots> = Inr (map (\<lambda>(k, x). (k, pick key ys x)) ?m1
          @ map (\<lambda>y. (key_of key y, y)) (filter (\<lambda>y'. key_of key y' \<notin> fst ` set ?m1) ys))"
      by (rule Cons.IH [OF ok1 ys])
    also have "\<dots> = Inr (map (\<lambda>(k, x). (k, pick key (y # ys) x)) m
          @ map (\<lambda>y. (key_of key y, y)) (filter (\<lambda>y'. key_of key y' \<notin> fst ` set m) (y # ys)))"
      unfolding keys1 old using x(2) by simp
    finally show ?thesis .
  qed
qed

lemma merge_items_invariant:
  assumes "entries_ok key m" "keyed key ys"
  shows "\<exists>m'. merge_items key ys m = Inr m' \<and> entries_ok key m'
           \<and> fst ` set m' = fst ` set m \<union> key_of key ` set ys
           \<and> snd ` set m' \<subseteq> snd ` set m \<union> set ys"
  using assms
proof (induction ys arbitrary: m)
  case Nil
  then show ?case by simp
next
  case (Cons y ys)
  let ?k = "key_of key y"
  have y: "get_prop y key = Inr ?k" "is_primitive ?k"
    using keyedD [OF Cons.prems(2), of y] by simp_all
  have ys: "keyed key ys"
    using Cons.prems by simp
  have "\<exists>m1. merge_item key y m = Inr m1 \<and> entries_ok key m1
      \<and> fst ` set m1 = insert ?k (fst ` set m) \<and> snd ` set m1 \<subseteq> insert y (snd ` set m)"
  proof (cases "map_of m ?k")
    case None
    then have notin: "?k \<notin> fst ` set m"
      by (simp add: map_of_eq_None_iff)
    show ?thesis
      using merge_item_new [OF Cons.prems(1) y notin] entries_ok_snoc [OF Cons.prems(1) y notin]
      by auto
  next
    case (Some x)
    have x: "?k \<in> fst ` set m"
      using entries_ok_lookup [OF Cons.prems(1) Some] by simp
    let ?r = "map (\<lambda>(k', x'). if k' = ?k then (k', y) else (k', x')) m"
    have keys: "fst ` set ?r = fst ` set m"
      by (rule replace_keys)
    have vals: "snd ` set ?r \<subseteq> insert y (snd ` set m)"
      by (rule replace_vals)
    show ?thesis
    proof (cases "js_gt (stamp_of y) (stamp_of x)")
      case True
      then have "merge_item key y m = Inr ?r"
        using merge_item_old [OF Cons.prems(1) y(1) Some] by simp
      then show ?thesis
        using entries_ok_replace [OF Cons.prems(1) y(1)] keys vals x by auto
    next
      case False
      then have "merge_item key y m = Inr m"
        using merge_item_old [OF Cons.prems(1) y(1) Some] by simp
      then show ?thesis
        using Cons.prems(1) x by auto
    qed
  qed
  then obtain m1 where m1: "merge_item key y m = Inr m1" "entries_ok key m1"
      "fst ` set m1 = insert ?k (fst ` set m)" "snd ` set m1 \<subseteq> insert y (snd ` set m)"
    by blast
  obtain m' where m': "merge_items key ys m1 = Inr m'" "entries_ok key m'"
      "fst ` set m' = fst ` set m1 \<union> key_of key ` set ys"
      "snd ` set m' \<subseteq> snd ` set m1 \<union> set ys"
    using Cons.IH [OF m1(2) ys] by blast
  have "merge_items key (y # ys) m = Inr m'"
    using m1(1) m'(1) by simp
  moreover have "fst ` set m' = fst ` set m \<union> key_of key ` set (y # ys)"
    using m'(3) m1(3) by auto
  moreover have "snd ` set m' \<subseteq> snd ` set m \<union> set (y # ys)"
    using m'(4) m1(4) by auto
  ultimately show ?case using m'(2) by blast
qed

lemma entries_keys: "entries_ok key m \<Longrightarrow> map (key_of key) (map snd m) = map fst m"
proof (induction m)
  case Nil
  then show ?case by simp
next
  case (Cons p m)
  obtain k v where p: "p = (k, v)" by (cases p)
  have "entries_ok key m"
    using Cons.prems by (simp add: entries_ok_def p)
  moreover have "key_of key v = k"
    using Cons.prems by (simp add: entries_ok_def p key_of_def)
  ultimately show ?case using Cons.IH p by simp
qed

text \<open>Two arrays of keyed items always merge, to one item for each key of either side.\<close>

lemma mergeArrays_union:
  assumes "keyed key xs" "keyed key ys"
  shows "\<exists>zs. mergeArrays (JArr xs) (JArr ys) key = Inr zs
           \<and> distinct (map (key_of key) zs)
           \<and> set (map (key_of key) zs) = key_of key ` set xs \<union> key_of key ` set ys
           \<and> set zs \<subseteq> set xs \<union> set ys"
proof -
  have k: "keyed key (xs @ ys)" using assms by simp
  have "\<exists>m'. merge_items key (xs @ ys) [] = Inr m' \<and> entries_ok key m'
           \<and> fst ` set m' = key_of key ` set xs \<union> key_of key ` set ys
           \<and> snd ` set m' \<subseteq> set xs \<union> set ys"
    using merge_items_invariant [OF entries_ok_Nil k] by (simp add: image_Un)
  then obtain m' where all: "merge_items key (xs @ ys) [] = Inr m' \<and> entries_ok key m'
           \<and> fst ` set m' = key_of key ` set xs \<union> key_of key ` set ys
           \<and> snd ` set m' \<subseteq> set xs \<union> set ys" ..
  have m1: "merge_items key (xs @ ys) [] = Inr m'" and m2: "entries_ok key m'"
    and m3: "fst ` set m' = key_of key ` set xs \<union> key_of key ` set ys"
    and m4: "snd ` set m' \<subseteq> set xs \<union> set ys"
    using all by (rule conjunct1, rule conjunct2 [THEN conjunct1],
      rule conjunct2 [THEN conjunct2, THEN conjunct1], rule conjunct2 [THEN conjunct2, THEN conjunct2])
  have r: "mergeArrays (JArr xs) (JArr ys) key = Inr (map snd m')"
    unfolding mergeArrays_def by (simp add: m1)
  have keys: "map (key_of key) (map snd m') = map fst m'"
    by (rule entries_keys [OF m2])
  have d: "distinct (map (key_of key) (map snd m'))"
    unfolding keys using m2 by (simp add: entries_ok_def)
  have "set (map fst m') = key_of key ` set xs \<union> key_of key ` set ys"
    using m3 by simp
  then have s: "set (map (key_of key) (map snd m')) = key_of key ` set xs \<union> key_of key ` set ys"
    unfolding keys .
  have sub: "set (map snd m') \<subseteq> set xs \<union> set ys"
    using m4 by simp
  show ?thesis
    by (intro exI [of _ "map snd m'"] conjI r d s sub)
qed

text \<open>With distinct keys on each side the merged array is known item by item.\<close>

lemma mergeArrays_explicit:
  assumes "keyed key xs" "keyed key ys"
    and "distinct (map (key_of key) xs)" "distinct (map (key_of key) ys)"
  shows "mergeArrays (JArr xs) (JArr ys) key = Inr (merged_items key xs ys)"
proof -
  let ?m = "map (\<lambda>x. (key_of key x, x)) xs"
  have first: "merge_items key xs [] = Inr ?m"
    using merge_items_explicit [OF entries_ok_Nil assms(1,3)] by simp
  have fst_m: "map fst ?m = map (key_of key) xs"
    by (simp add: comp_def)
  have ok: "entries_ok key ?m"
    unfolding entries_ok_def fst_m
    using assms(1,3) keyedD [OF assms(1)] by (auto simp: prim_keys_def)
  have keys: "fst ` set ?m = key_of key ` set xs"
    by (auto simp: image_iff)
  have second: "merge_items key ys ?m =
     Inr (map (\<lambda>(k, x). (k, pick key ys x)) ?m
          @ map (\<lambda>y. (key_of key y, y)) (filter (\<lambda>y. key_of key y \<notin> fst ` set ?m) ys))"
    by (rule merge_items_explicit [OF ok assms(2,4)])
  have "mergeArrays (JArr xs) (JArr ys) key =
     Inr (map snd (map (\<lambda>(k, x). (k, pick key ys x)) ?m
          @ map (\<lambda>y. (key_of key y, y)) (filter (\<lambda>y. key_of key y \<notin> fst ` set ?m) ys)))"
    by (simp add: mergeArrays_def merge_items_append first second)
  also have "\<dots> = Inr (merged_items key xs ys)"
    unfolding keys by (simp add: merged_items_def comp_def)
  finally show ?thesis .
qed

section \<open>mergeData\<close>

lemma lookup_set_prop:
  "lookup_prop (set_prop n v m) n' = (if n' = n then v else lookup_prop m n')"
  by (simp add: lookup_prop_def set_prop_def update_conv')

lemma merge_collection_object:
  assumes "mergeable_at lp cp (name, key)"
  shows "merge_collection (JObj lp) (JObj cp) name key m = Inr (merged_collection lp cp name key m)"
proof (cases "truthy (lookup_prop lp name) \<and> truthy (lookup_prop cp name)")
  case True
  then obtain xs ys where a: "lookup_prop lp name = JArr xs" "lookup_prop cp name = JArr ys"
      "keyed key xs" "keyed key ys"
    using assms by (auto simp: mergeable_at_def Let_def split: jsval.splits)
  obtain zs where "mergeArrays (JArr xs) (JArr ys) key = Inr zs"
    using mergeArrays_union [OF a(3,4)] by (elim exE conjE)
  then show ?thesis
    using a by (simp add: merge_collection_def merged_collection_def)
next
  case False
  then show ?thesis
    by (auto simp: merge_collection_def merged_collection_def)
qed

lemma lookup_merged_other:
  "n \<noteq> name \<Longrightarrow> lookup_prop (merged_collection lp cp name key m) n = lookup_prop m n"
  by (simp add: merged_collection_def lookup_set_prop split: sum.splits)

lemma lookup_merged_same:
  "lookup_prop lp name = JArr xs \<Longrightarrow> lookup_prop cp name = JArr ys \<Longrightarrow>
   mergeArrays (JArr xs) (JArr ys) key = Inr zs \<Longrightarrow>
   lookup_prop (merged_collection lp cp name key m) name = JArr zs"
  by (simp add: merged_collection_def lookup_set_prop)

lemma snapshots_object:
  assumes "snapshots local cloud"
  obtains lp cp where "local = JObj lp" "cloud = JObj cp"
    "mergeable_at lp cp (''manualTransactions'', ''id'')"
    "mergeable_at lp cp (''activeLoans'', ''id'')"
    "mergeable_at lp cp (''futureIncomes'', ''desc'')"
  using assms by (auto simp: snapshots_def collections_def split: jsval.splits)

text \<open>The merged snapshot of two well-formed snapshots, written out.\<close>

lemma mergeData_object:
  assumes "mergeable_at lp cp (''manualTransactions'', ''id'')"
    "mergeable_at lp cp (''activeLoans'', ''id'')"
    "mergeable_at lp cp (''futureIncomes'', ''desc'')"
  shows "mergeData (JObj lp) (JObj cp) =
     Inr (JObj
       (let m3 = merged_collection lp cp ''futureIncomes'' ''desc''
                  (merged_collection lp cp ''activeLoans'' ''id''
                    (merged_collection lp cp ''manualTransactions'' ''id'' cp))
        in if lookup_prop lp ''currentBalance'' \<noteq> JUndefined
           then set_prop ''currentBalance'' (lookup_prop lp ''currentBalance'') m3 else m3))"
  by (simp add: mergeData_def merge_collection_object [OF assms(1)]
      merge_collection_object [OF assms(2)] merge_collection_object [OF assms(3)] Let_def)

lemma mergeData_collection:
  assumes "snapshots local cloud" "(name, key) \<in> set collections"
    and "get_prop local name = Inr (JArr xs)" "get_prop cloud name = Inr (JArr ys)"
  shows "\<exists>merged zs. mergeData local cloud = Inr merged \<and> get_prop merged name = Inr (JArr zs)
           \<and> mergeArrays (JArr xs) (JArr ys) key = Inr zs \<and> keyed key xs \<and> keyed key ys"
proof -
  obtain lp cp where o: "local = JObj lp" "cloud = JObj cp"
    and c: "mergeable_at lp cp (''manualTransactions'', ''id'')"
      "mergeable_at lp cp (''activeLoans'', ''id'')"
      "mergeable_at lp cp (''futureIncomes'', ''desc'')"
    using snapshots_object [OF assms(1)] by metis
  have l: "lookup_prop lp name = JArr xs" "lookup_prop cp name = JArr ys"
    using assms(3,4) o by simp_all
  have "mergeable_at lp cp (name, key)"
    using assms(2) c by (auto simp: collections_def)
  then have k: "keyed key xs" "keyed key ys"
    using l by (simp_all add: mergeable_at_def)
  obtain zs where zs: "mergeArrays (JArr xs) (JArr ys) key = Inr zs"
    using mergeArrays_union [OF k] by (elim exE conjE)
  let ?m1 = "merged_collection lp cp ''manualTransactions'' ''id'' cp"
  let ?m2 = "merged_collection lp cp ''activeLoans'' ''id'' ?m1"
  let ?m3 = "merged_collection lp cp ''futureIncomes'' ''desc'' ?m2"
  have "lookup_prop ?m3 name = JArr zs"
    using assms(2) lookup_merged_same [OF l zs]
    by (auto simp: collections_def lookup_merged_other)
  then have "get_prop (JObj (if lookup_prop lp ''currentBalance'' \<noteq> JUndefined
           then set_prop ''currentBalance'' (lookup_prop lp ''currentBalance'') ?m3 else ?m3)) name
      = Inr (JArr zs)"
    using assms(2) by (auto simp: collections_def lookup_set_prop)
  then show ?thesis
    using mergeData_object [OF c] zs k o by (simp add: Let_def)
qed

lemma find_distinct_key:
  "distinct (map f ys) \<Longrightarrow> y \<in> set ys \<Longrightarrow> find (\<lambda>y'. f y' = f y) ys = Some y"
  by (induction ys) (auto simp: image_iff)

lemma pick_found:
  assumes "distinct (map (key_of key) ys)" "y \<in> set ys" "key_of key x = key_of key y"
  shows "pick key ys x = (if js_gt (stamp_of y) (stamp_of x) then y else x)"
  using find_distinct_key [OF assms(1,2)] assms(3) by (simp add: pick_def)

lemma same_key_same_item:
  "distinct (map f zs) \<Longrightarrow> x \<in> set zs \<Longrightarrow> y \<in> set zs \<Longrightarrow> f x = f y \<Longrightarrow> x = y"
  by (meson distinct_map inj_onD)

text \<open>
  C5. Two well-formed snapshots merge. For each of \<^verbatim>\<open>manualTransactions\<close> (key \<^verbatim>\<open>id\<close>),
  \<^verbatim>\<open>activeLoans\<close> (key \<^verbatim>\<open>id\<close>) and \<^verbatim>\<open>futureIncomes\<close> (key \<^verbatim>\<open>desc\<close>) that is an array on
  both sides, the merged collection holds items of the two sides only, exactly one for each
  key of either side; and where the keys are distinct within each side, of a local and a cloud
  item with the same key the one with the strictly greater time stamp is in it.
\<close>

theorem mergeData_union:
  assumes "snapshots local cloud" "(name, key) \<in> set collections"
    and "get_prop local name = Inr (JArr xs)" "get_prop cloud name = Inr (JArr ys)"
  shows "\<exists>merged zs. mergeData local cloud = Inr merged \<and> get_prop merged name = Inr (JArr zs)
           \<and> distinct (map (key_of key) zs)
           \<and> set (map (key_of key) zs) = key_of key ` set xs \<union> key_of key ` set ys
           \<and> set zs \<subseteq> set xs \<union> set ys
           \<and> (distinct (map (key_of key) xs) \<and> distinct (map (key_of key) ys) \<longrightarrow>
                (\<forall>x \<in> set xs. \<forall>y \<in> set ys. key_of key x = key_of key y \<longrightarrow>
                   (js_gt (stamp_of y) (stamp_of x) \<longrightarrow> y \<in> set zs \<and> (x \<noteq> y \<longrightarrow> x \<notin> set zs))
                   \<and> (js_gt (stamp_of x) (stamp_of y) \<longrightarrow> x \<in> set zs \<and> (x \<noteq> y \<longrightarrow> y \<notin> set zs))))"
proof -
  have "\<exists>merged zs. mergeData local cloud = Inr merged \<and> get_prop merged name = Inr (JArr zs)
           \<and> mergeArrays (JArr xs) (JArr ys) key = Inr zs \<and> keyed key xs \<and> keyed key ys"
    by (rule mergeData_collection [OF assms])
  then obtain merged zs where m: "mergeData local cloud = Inr merged"
      "get_prop merged name = Inr (JArr zs)"
    and zs: "mergeArrays (JArr xs) (JArr ys) key = Inr zs"
    and k: "keyed key xs" "keyed key ys"
    by (elim exE conjE)
  have u: "distinct (map (key_of key) zs)"
      "set (map (key_of key) zs) = key_of key ` set xs \<union> key_of key ` set ys"
      "set zs \<subseteq> set xs \<union> set ys"
    using mergeArrays_union [OF k] zs by simp_all
  have newer: "distinct (map (key_of key) xs) \<and> distinct (map (key_of key) ys) \<longrightarrow>
                (\<forall>x \<in> set xs. \<forall>y \<in> set ys. key_of key x = key_of key y \<longrightarrow>
                   (js_gt (stamp_of y) (stamp_of x) \<longrightarrow> y \<in> set zs \<and> (x \<noteq> y \<longrightarrow> x \<notin> set zs))
                   \<and> (js_gt (stamp_of x) (stamp_of y) \<longrightarrow> x \<in> set zs \<and> (x \<noteq> y \<longrightarrow> y \<notin> set zs)))"
  proof (intro impI ballI, elim conjE)
    fix x y
    assume d: "distinct (map (key_of key) xs)" "distinct (map (key_of key) ys)"
      and x: "x \<in> set xs" and y: "y \<in> set ys" and same: "key_of key x = key_of key y"
    have e: "zs = merged_items key xs ys"
      using mergeArrays_explicit [OF k d] zs by simp
    have p: "pick key ys x = (if js_gt (stamp_of y) (stamp_of x) then y else x)"
      by (rule pick_found [OF d(2) y same])
    have in_zs: "pick key ys x \<in> set zs"
      using x unfolding e merged_items_def by simp
    show "(js_gt (stamp_of y) (stamp_of x) \<longrightarrow> y \<in> set zs \<and> (x \<noteq> y \<longrightarrow> x \<notin> set zs))
        \<and> (js_gt (stamp_of x) (stamp_of y) \<longrightarrow> x \<in> set zs \<and> (x \<noteq> y \<longrightarrow> y \<notin> set zs))"
    proof (intro conjI impI)
      assume g: "js_gt (stamp_of y) (stamp_of x)"
      then show "y \<in> set zs" using p in_zs by simp
      then show "x \<notin> set zs" if "x \<noteq> y"
        using same_key_same_item [OF u(1), of x y] same that by blast
    next
      assume g: "js_gt (stamp_of x) (stamp_of y)"
      then have "\<not> js_gt (stamp_of y) (stamp_of x)" by (rule js_gt_asym)
      then show "x \<in> set zs" using p in_zs by simp
      then show "y \<notin> set zs" if "x \<noteq> y"
        using same_key_same_item [OF u(1), of x y] same that by blast
    qed
  qed
  show ?thesis
    by (intro exI [of _ merged] exI [of _ zs] conjI m u newer)
qed

lemmas eval_merge = mergeData_def merge_collection_def mergeArrays_def merge_item_def
  lookup_prop_def set_prop_def same_value_zero_def js_gt_def

lemma mergeData_spec_example:
  "mergeData spec_local spec_cloud =
     Inr (JObj [(''manualTransactions'', JArr [tx 1 5, tx 2 9, tx 3 2]), (''currentBalance'', JNum 100)])"
  by (simp add: spec_local_def spec_cloud_def tx_def eval_merge)

lemma snapshots_spec_example: "snapshots spec_local spec_cloud"
  by (simp add: snapshots_def collections_def mergeable_at_def spec_local_def spec_cloud_def
      tx_def lookup_prop_def)

theorem mergeData_union_witness:
  "snapshots spec_local spec_cloud
   \<and> (''manualTransactions'', ''id'') \<in> set collections
   \<and> get_prop spec_local ''manualTransactions'' = Inr (JArr [tx 1 5, tx 2 1])
   \<and> get_prop spec_cloud ''manualTransactions'' = Inr (JArr [tx 2 9, tx 3 2])
   \<and> (\<exists>merged zs. mergeData spec_local spec_cloud = Inr merged
         \<and> get_prop merged ''manualTransactions'' = Inr (JArr zs)
         \<and> set (map (key_of ''id'') zs) = {JNum 1, JNum 2, JNum 3}
         \<and> tx 2 9 \<in> set zs \<and> tx 2 1 \<notin> set zs)
   \<and> mergeData spec_local spec_cloud =
       Inr (JObj [(''manualTransactions'', JArr [tx 1 5, tx 2 9, tx 3 2]), (''currentBalance'', JNum 100)])"
proof -
  have c: "(''manualTransactions'', ''id'') \<in> set collections"
    by (simp add: collections_def)
  have l: "get_prop spec_local ''manualTransactions'' = Inr (JArr [tx 1 5, tx 2 1])"
    by (simp add: spec_local_def lookup_prop_def)
  have r: "get_prop spec_cloud ''manualTransactions'' = Inr (JArr [tx 2 9, tx 3 2])"
    by (simp add: spec_cloud_def lookup_prop_def)
  note ev = mergeData_spec_example
  obtain merged zs where m: "mergeData spec_local spec_cloud = Inr merged"
      "get_prop merged ''manualTransactions'' = Inr (JArr zs)"
    and keys: "set (map (key_of ''id'') zs) =
        key_of ''id'' ` set [tx 1 5, tx 2 1] \<union> key_of ''id'' ` set [tx 2 9, tx 3 2]"
    and newer: "distinct (map (key_of ''id'') [tx 1 5, tx 2 1]) \<and> distinct (map (key_of ''id'') [tx 2 9, tx 3 2]) \<longrightarrow>
                (\<forall>x \<in> set [tx 1 5, tx 2 1]. \<forall>y \<in> set [tx 2 9, tx 3 2]. key_of ''id'' x = key_of ''id'' y \<longrightarrow>
                   (js_gt (stamp_of y) (stamp_of x) \<longrightarrow> y \<in> set zs \<and> (x \<noteq> y \<longrightarrow> x \<notin> set zs))
                   \<and> (js_gt (stamp_of x) (stamp_of y) \<longrightarrow> x \<in> set zs \<and> (x \<noteq> y \<longrightarrow> y \<notin> set zs)))"
    using mergeData_union [OF snapshots_spec_example c l r] by (elim exE conjE)
  have ids: "key_of ''id'' (tx 1 5) = JNum 1" "key_of ''id'' (tx 2 1) = JNum 2"
      "key_of ''id'' (tx 2 9) = JNum 2" "key_of ''id'' (tx 3 2) = JNum 3"
    by (simp_all add: key_of_def tx_def lookup_prop_def)
  have d: "distinct (map (key_of ''id'') [tx 1 5, tx 2 1]) \<and> distinct (map (key_of ''id'') [tx 2 9, tx 3 2])"
    by (simp add: ids)
  have g: "js_gt (stamp_of (tx 2 9)) (stamp_of (tx 2 1))"
    by (simp add: stamp_of_def key_of_def tx_def lookup_prop_def js_gt_def)
  have ne: "tx 2 1 \<noteq> tx 2 9"
    by (simp add: tx_def)
  have "js_gt (stamp_of (tx 2 9)) (stamp_of (tx 2 1)) \<longrightarrow>
      tx 2 9 \<in> set zs \<and> (tx 2 1 \<noteq> tx 2 9 \<longrightarrow> tx 2 1 \<notin> set zs)"
    using newer d by (simp add: ids)
  then have two: "tx 2 9 \<in> set zs" "tx 2 1 \<notin> set zs"
    using g ne by simp_all
  have k: "set (map (key_of ''id'') zs) = {JNum 1, JNum 2, JNum 3}"
    unfolding keys by (auto simp: ids)
  show ?thesis
    using snapshots_spec_example c l r m k two ev by blast
qed

text \<open>
  C3, as the code has it. Where the keys are distinct within each side and a local and a cloud
  item have the same key and equal time stamps, the merged collection keeps the local item:
  \<^verbatim>\<open>mergeArrays\<close> visits the local items first and replaces an entry only for a strictly
  greater time stamp.
\<close>

theorem mergeData_tie_keeps_local:
  assumes "snapshots local cloud" "(name, key) \<in> set collections"
    and "get_prop local name = Inr (JArr xs)" "get_prop cloud name = Inr (JArr ys)"
    and "distinct (map (key_of key) xs)" "distinct (map (key_of key) ys)"
    and "x \<in> set xs" "y \<in> set ys" "key_of key x = key_of key y"
    and "stamp_of x = stamp_of y"
  shows "\<exists>merged zs. mergeData local cloud = Inr merged \<and> get_prop merged name = Inr (JArr zs)
           \<and> x \<in> set zs \<and> (y \<noteq> x \<longrightarrow> y \<notin> set zs)"
proof -
  have "\<exists>merged zs. mergeData local cloud = Inr merged \<and> get_prop merged name = Inr (JArr zs)
           \<and> mergeArrays (JArr xs) (JArr ys) key = Inr zs \<and> keyed key xs \<and> keyed key ys"
    by (rule mergeData_collection [OF assms(1-4)])
  then obtain merged zs where m: "mergeData local cloud = Inr merged"
      "get_prop merged name = Inr (JArr zs)"
    and zs: "mergeArrays (JArr xs) (JArr ys) key = Inr zs"
    and k: "keyed key xs" "keyed key ys"
    by (elim exE conjE)
  have d: "distinct (map (key_of key) zs)"
    using mergeArrays_union [OF k] zs by simp
  have e: "zs = merged_items key xs ys"
    using mergeArrays_explicit [OF k assms(5,6)] zs by simp
  have "pick key ys x = x"
    using pick_found [OF assms(6,8,9)] assms(10) js_gt_irrefl [of "stamp_of y"] by simp
  then have kept: "x \<in> set zs"
    using assms(7) unfolding e merged_items_def by force
  have gone: "y \<noteq> x \<longrightarrow> y \<notin> set zs"
    using same_key_same_item [OF d kept, of y] assms(9) by blast
  show ?thesis
    by (intro exI [of _ merged] exI [of _ zs] conjI m kept gone)
qed

lemma mergeData_tie_example:
  "mergeData tie_local tie_cloud = Inr (JObj [(''manualTransactions'', JArr [tx_from 1 5 ''local''])])"
  by (simp add: tie_local_def tie_cloud_def tx_from_def eval_merge)

theorem mergeData_tie_keeps_local_witness:
  "snapshots tie_local tie_cloud
   \<and> stamp_of (tx_from 1 5 ''local'') = stamp_of (tx_from 1 5 ''cloud'')
   \<and> (\<exists>merged zs. mergeData tie_local tie_cloud = Inr merged
         \<and> get_prop merged ''manualTransactions'' = Inr (JArr zs)
         \<and> tx_from 1 5 ''local'' \<in> set zs \<and> tx_from 1 5 ''cloud'' \<notin> set zs)"
proof -
  have s: "snapshots tie_local tie_cloud"
    by (simp add: snapshots_def collections_def mergeable_at_def tie_local_def tie_cloud_def
        tx_from_def lookup_prop_def)
  have c: "(''manualTransactions'', ''id'') \<in> set collections"
    by (simp add: collections_def)
  have l: "get_prop tie_local ''manualTransactions'' = Inr (JArr [tx_from 1 5 ''local''])"
    by (simp add: tie_local_def lookup_prop_def)
  have r: "get_prop tie_cloud ''manualTransactions'' = Inr (JArr [tx_from 1 5 ''cloud''])"
    by (simp add: tie_cloud_def lookup_prop_def)
  have d: "distinct (map (key_of ''id'') [tx_from 1 5 ''local''])"
      "distinct (map (key_of ''id'') [tx_from 1 5 ''cloud''])"
    by simp_all
  have i: "tx_from 1 5 ''local'' \<in> set [tx_from 1 5 ''local'']"
      "tx_from 1 5 ''cloud'' \<in> set [tx_from 1 5 ''cloud'']"
    by simp_all
  have same: "key_of ''id'' (tx_from 1 5 ''local'') = key_of ''id'' (tx_from 1 5 ''cloud'')"
    by (simp add: key_of_def tx_from_def lookup_prop_def)
  have tie: "stamp_of (tx_from 1 5 ''local'') = stamp_of (tx_from 1 5 ''cloud'')"
    by (simp add: stamp_of_def key_of_def tx_from_def lookup_prop_def)
  have ne: "tx_from 1 5 ''cloud'' \<noteq> tx_from 1 5 ''local''"
    by (simp add: tx_from_def)
  show ?thesis
    using mergeData_tie_keeps_local [OF s c l r d i same tie] s tie ne by blast
qed

text \<open>
  The spec's wording of C3 has the cloud item kept on a tie. At one transaction with the same
  \<^verbatim>\<open>id\<close> and the same \<^verbatim>\<open>timestamp\<close> on both sides, told apart by a note, the merged
  collection is the local item alone.
\<close>

theorem mergeData_tie_counterexample:
  "mergeData tie_local tie_cloud = Inr (JObj [(''manualTransactions'', JArr [tx_from 1 5 ''local''])])
   \<and> key_of ''id'' (tx_from 1 5 ''local'') = key_of ''id'' (tx_from 1 5 ''cloud'')
   \<and> stamp_of (tx_from 1 5 ''local'') = stamp_of (tx_from 1 5 ''cloud'')
   \<and> tx_from 1 5 ''cloud'' \<notin> set [tx_from 1 5 ''local'']"
  by (simp add: mergeData_tie_example key_of_def stamp_of_def tx_from_def lookup_prop_def)

text \<open>
  C6. Two well-formed snapshots merge, and the merged \<^verbatim>\<open>currentBalance\<close> is the local one
  whenever the local snapshot defines it (whatever the time stamps are), and the cloud's
  otherwise.
\<close>

theorem mergeData_balance:
  assumes "snapshots local cloud"
  shows "\<exists>merged. mergeData local cloud = Inr merged
           \<and> get_prop merged ''currentBalance'' =
               (if get_prop local ''currentBalance'' \<noteq> Inr JUndefined
                then get_prop local ''currentBalance'' else get_prop cloud ''currentBalance'')"
proof -
  obtain lp cp where o: "local = JObj lp" "cloud = JObj cp"
    and c: "mergeable_at lp cp (''manualTransactions'', ''id'')"
      "mergeable_at lp cp (''activeLoans'', ''id'')"
      "mergeable_at lp cp (''futureIncomes'', ''desc'')"
    using snapshots_object [OF assms] by metis
  let ?m3 = "merged_collection lp cp ''futureIncomes'' ''desc''
                  (merged_collection lp cp ''activeLoans'' ''id''
                    (merged_collection lp cp ''manualTransactions'' ''id'' cp))"
  have "lookup_prop ?m3 ''currentBalance'' = lookup_prop cp ''currentBalance''"
    by (simp add: lookup_merged_other)
  then have "get_prop (JObj (if lookup_prop lp ''currentBalance'' \<noteq> JUndefined
           then set_prop ''currentBalance'' (lookup_prop lp ''currentBalance'') ?m3 else ?m3))
         ''currentBalance''
      = (if lookup_prop lp ''currentBalance'' \<noteq> JUndefined
         then Inr (lookup_prop lp ''currentBalance'') else Inr (lookup_prop cp ''currentBalance''))"
    by (simp add: lookup_set_prop)
  then show ?thesis
    using mergeData_object [OF c] o by (simp add: Let_def)
qed

theorem mergeData_balance_witness:
  "snapshots spec_local spec_cloud
   \<and> get_prop spec_local ''currentBalance'' = Inr (JNum 100)
   \<and> get_prop spec_cloud ''currentBalance'' = Inr (JNum 50)
   \<and> (\<exists>merged. mergeData spec_local spec_cloud = Inr merged
         \<and> get_prop merged ''currentBalance'' = Inr (JNum 100))"
proof -
  have l: "get_prop spec_local ''currentBalance'' = Inr (JNum 100)"
    by (simp add: spec_local_def lookup_prop_def)
  have r: "get_prop spec_cloud ''currentBalance'' = Inr (JNum 50)"
    by (simp add: spec_cloud_def lookup_prop_def)
  have "\<exists>merged. mergeData spec_local spec_cloud = Inr merged
         \<and> get_prop merged ''currentBalance'' = Inr (JNum 100)"
    using mergeData_balance [OF snapshots_spec_example] l by simp
  then show ?thesis
    using snapshots_spec_example l r by blast
qed

section \<open>The retry policy\<close>

lemma fetchWithRetry_3:
  "fetchWithRetry w req (Suc (Suc (Suc 0))) =
     (outcome_result (net w (length (requests w))), w\<lparr>requests := requests w @ [logged w req]\<rparr>)"
  by (subst fetchWithRetry.simps)
     (simp add: fetch_def maxRetries_def outcome_result_def logged_def split: fetch_outcome.splits)

lemma fetchWithRetry_2:
  "fetchWithRetry w req (Suc (Suc 0)) =
     (if retriable (net w (length (requests w)))
      then (outcome_result (net w (length (requests w) + 1)),
            w\<lparr>requests := requests w @ [logged w req, logged w req],
              sleeps := sleeps w @ [4000], now := now w + 4000\<rparr>)
      else (outcome_result (net w (length (requests w))),
            w\<lparr>requests := requests w @ [logged w req]\<rparr>))"
  apply (subst fetchWithRetry.simps)
  apply (simp add: fetch_def maxRetries_def retryDelay_def outcome_result_def retriable_def
      logged_def sleep_def fetchWithRetry_3 split: fetch_outcome.splits)
  done

lemma fetchWithRetry_1:
  "fetchWithRetry w req 1 =
     (let n = length (requests w) in
      if \<not> retriable (net w n)
      then (outcome_result (net w n), w\<lparr>requests := requests w @ [logged w req]\<rparr>)
      else if \<not> retriable (net w (n + 1))
      then (outcome_result (net w (n + 1)),
            w\<lparr>requests := requests w @ [logged w req, logged w req],
              sleeps := sleeps w @ [2000], now := now w + 2000\<rparr>)
      else (outcome_result (net w (n + 2)),
            w\<lparr>requests := requests w @ [logged w req, logged w req, logged w req],
              sleeps := sleeps w @ [2000, 4000], now := now w + 6000\<rparr>))"
  apply (subst fetchWithRetry.simps)
  apply (simp add: fetch_def maxRetries_def retryDelay_def outcome_result_def retriable_def
      logged_def sleep_def fetchWithRetry_2 Let_def split: fetch_outcome.splits)
  done

lemma backoffs_1: "map backoff [1..<Suc 0] = []"
  by simp

lemma backoffs_2: "map backoff [1..<2] = [2000]"
proof -
  have "[1..<2] = [1::nat]" by (simp add: upt_rec)
  then show ?thesis by (simp add: backoff_def)
qed

lemma backoffs_3: "map backoff [1..<3] = [2000, 4000]"
proof -
  have "[1..<3] = [1, 2::nat]" by (simp add: upt_rec)
  then show ?thesis by (simp add: backoff_def)
qed

lemma replicate_2: "replicate 2 x = [x, x]"
  by (simp add: numeral_2_eq_2)

lemma replicate_3: "replicate 3 x = [x, x, x]"
  by (simp add: numeral_3_eq_3)

lemma after_attempts_1: "after_attempts w req 1 = w\<lparr>requests := requests w @ [logged w req]\<rparr>"
  unfolding after_attempts_def One_nat_def by simp

lemma after_attempts_2:
  "after_attempts w req 2 =
     w\<lparr>requests := requests w @ [logged w req, logged w req],
       sleeps := sleeps w @ [2000], now := now w + 2000\<rparr>"
  unfolding after_attempts_def backoffs_2 replicate_2 by simp

lemma after_attempts_3:
  "after_attempts w req 3 =
     w\<lparr>requests := requests w @ [logged w req, logged w req, logged w req],
       sleeps := sleeps w @ [2000, 4000], now := now w + 6000\<rparr>"
  unfolding after_attempts_def backoffs_3 replicate_3 by simp

lemma fetchWithRetry_attempts:
  "fetchWithRetry w req 1 =
     (let n = length (requests w) in
      if \<not> retriable (net w n) then (outcome_result (net w n), after_attempts w req 1)
      else if \<not> retriable (net w (n + 1)) then (outcome_result (net w (n + 1)), after_attempts w req 2)
      else (outcome_result (net w (n + 2)), after_attempts w req 3))"
  unfolding after_attempts_1 after_attempts_2 after_attempts_3 by (rule fetchWithRetry_1)

lemma requests_after_attempts: "requests (after_attempts w req k) = requests w @ replicate k (logged w req)"
  by (simp add: after_attempts_def)

lemma retriable_valid: "valid_status out \<Longrightarrow> retriable out = retry_wanted out"
  by (simp add: valid_status_def retriable_def retry_wanted_def is_5xx_def split: fetch_outcome.splits)

text \<open>
  C4. A call of \<^verbatim>\<open>fetchWithRetry\<close> (attempt 1) sends at most \<^verbatim>\<open>maxRetries\<close> = 3 requests.
  Where the statuses of the first two outcomes are HTTP status codes (at most 599): an outcome
  that is a thrown transport error or a response with a 5xx status is retried while the attempt
  number is below 3, any other response is returned at once, and the third outcome is returned
  (a response) or raised (an error) whatever it is. The delay slept before attempt \<open>n + 1\<close> is
  \<open>2000 * 2 ^ (n - 1)\<close> milliseconds.
\<close>

theorem fetchWithRetry_policy:
  assumes "valid_status (net w (length (requests w)))"
    and "valid_status (net w (length (requests w) + 1))"
  shows "fetchWithRetry w req 1 =
     (let n = length (requests w) in
      if \<not> retry_wanted (net w n) then (outcome_result (net w n), after_attempts w req 1)
      else if \<not> retry_wanted (net w (n + 1)) then (outcome_result (net w (n + 1)), after_attempts w req 2)
      else (outcome_result (net w (n + 2)), after_attempts w req 3))
    \<and> length (requests (snd (fetchWithRetry w req 1))) \<le> length (requests w) + maxRetries
    \<and> (\<forall>k. sleeps (after_attempts w req k) = sleeps w @ map (\<lambda>n. 2000 * 2 ^ (n - 1)) [1..<k])"
proof -
  have eq: "fetchWithRetry w req 1 =
     (let n = length (requests w) in
      if \<not> retry_wanted (net w n) then (outcome_result (net w n), after_attempts w req 1)
      else if \<not> retry_wanted (net w (n + 1)) then (outcome_result (net w (n + 1)), after_attempts w req 2)
      else (outcome_result (net w (n + 2)), after_attempts w req 3))"
    using assms retriable_valid [of "net w (length (requests w))"]
      retriable_valid [of "net w (length (requests w) + 1)"]
    unfolding fetchWithRetry_attempts Let_def by simp
  have "length (requests (snd (fetchWithRetry w req 1))) \<le> length (requests w) + maxRetries"
    unfolding fetchWithRetry_attempts Let_def
    by (simp add: requests_after_attempts maxRetries_def)
  moreover have "\<forall>k. sleeps (after_attempts w req k) = sleeps w @ map (\<lambda>n. 2000 * 2 ^ (n - 1)) [1..<k]"
    by (simp add: after_attempts_def backoff_def)
  ultimately show ?thesis using eq by blast
qed

theorem fetchWithRetry_policy_witness:
  "fst (fetchWithRetry (example_world unavailable_twice) (get_request (example_world unavailable_twice)) 1)
     = Inr \<lparr>status = 200, statusText = ''OK'', json_body = Some (JObj [])\<rparr>
   \<and> length (requests (snd (fetchWithRetry (example_world unavailable_twice)
         (get_request (example_world unavailable_twice)) 1))) = 3
   \<and> sleeps (snd (fetchWithRetry (example_world unavailable_twice)
         (get_request (example_world unavailable_twice)) 1)) = [2000, 4000]"
proof -
  have v0: "valid_status (net (example_world unavailable_twice)
      (length (requests (example_world unavailable_twice))))"
    by (simp add: valid_status_def example_world_def unavailable_twice_def http_response_def)
  have v1: "valid_status (net (example_world unavailable_twice)
      (length (requests (example_world unavailable_twice)) + 1))"
    by (simp add: valid_status_def example_world_def unavailable_twice_def http_response_def)
  show ?thesis
    using fetchWithRetry_policy [OF v0 v1, of "get_request (example_world unavailable_twice)"]
    by (simp add: Let_def example_world_def unavailable_twice_def http_response_def
        retry_wanted_def is_5xx_def outcome_result_def after_attempts_3)
qed

section \<open>saveToCloud\<close>

lemma fetchWithRetry_shape:
  "\<exists>k. 1 \<le> k \<and> k \<le> 3 \<and>
     fetchWithRetry w req 1 =
       (outcome_result (net w (length (requests w) + k - 1)), after_attempts w req k)"
proof -
  let ?n = "length (requests w)"
  consider (one) "\<not> retriable (net w ?n)"
    | (two) "retriable (net w ?n)" "\<not> retriable (net w (?n + 1))"
    | (three) "retriable (net w ?n)" "retriable (net w (?n + 1))"
    by blast
  then show ?thesis
  proof cases
    case one
    then have "fetchWithRetry w req 1 = (outcome_result (net w (?n + 1 - 1)), after_attempts w req 1)"
      unfolding fetchWithRetry_attempts Let_def by simp
    then show ?thesis by (intro exI [of _ 1]) simp
  next
    case two
    then have "fetchWithRetry w req 1 = (outcome_result (net w (?n + 2 - 1)), after_attempts w req 2)"
      unfolding fetchWithRetry_attempts Let_def by simp
    then show ?thesis by (intro exI [of _ 2]) simp
  next
    case three
    then have "fetchWithRetry w req 1 = (outcome_result (net w (?n + 3 - 1)), after_attempts w req 3)"
      unfolding fetchWithRetry_attempts Let_def by simp
    then show ?thesis by (intro exI [of _ 3]) simp
  qed
qed

lemma after_attempts_frame [simp]:
  "isSyncing (after_attempts w req k) = isSyncing w"
  "dbReady (after_attempts w req k) = dbReady w"
  "syncQueue (after_attempts w req k) = syncQueue w"
  "nextKey (after_attempts w req k) = nextKey w"
  "lastSyncHash (after_attempts w req k) = lastSyncHash w"
  "retryAttempts (after_attempts w req k) = retryAttempts w"
  "net (after_attempts w req k) = net w"
  "requests (after_attempts w req k) = requests w @ replicate k (logged w req)"
  by (simp_all add: after_attempts_def)

lemma payload_frame [simp]:
  "make_payload (w\<lparr>isSyncing := b\<rparr>) data = make_payload w data"
  "put_request (w\<lparr>isSyncing := b\<rparr>) p = put_request w p"
  "get_request (w\<lparr>isSyncing := b\<rparr>) = get_request w"
  by (simp_all add: make_payload_def sync_meta_def put_request_def get_request_def)

lemma logged_syncing [simp]: "logged (w\<lparr>isSyncing := b\<rparr>) req = \<lparr>sent = req, while_syncing = b\<rparr>"
  by (simp add: logged_def)

lemma saveToCloud_shape:
  assumes "\<not> isSyncing w"
  shows "\<exists>k. 1 \<le> k \<and> k \<le> 3 \<and>
     saveToCloud w data =
       (let w1 = after_attempts (w\<lparr>isSyncing := True\<rparr>) (put_request w (make_payload w data)) k in
        case outcome_result (net w (length (requests w) + k - 1)) of
          Inl e \<Rightarrow> save_failed w1 data e
        | Inr r \<Rightarrow>
            if \<not> ok r then save_failed w1 data (http_error r)
            else
              (case hashData data of
                 Inl e \<Rightarrow> save_failed w1 data e
               | Inr h \<Rightarrow> (Inr True, w1\<lparr>lastSyncHash := Some h, retryAttempts := 0, isSyncing := False\<rparr>)))"
proof -
  obtain k where k: "1 \<le> k" "k \<le> 3"
    and f: "fetchWithRetry (w\<lparr>isSyncing := True\<rparr>) (put_request w (make_payload w data)) 1 =
       (outcome_result (net w (length (requests w) + k - 1)),
        after_attempts (w\<lparr>isSyncing := True\<rparr>) (put_request w (make_payload w data)) k)"
    using fetchWithRetry_shape [of "w\<lparr>isSyncing := True\<rparr>" "put_request w (make_payload w data)"]
    by auto
  have "saveToCloud w data =
       (let w1 = after_attempts (w\<lparr>isSyncing := True\<rparr>) (put_request w (make_payload w data)) k in
        case outcome_result (net w (length (requests w) + k - 1)) of
          Inl e \<Rightarrow> save_failed w1 data e
        | Inr r \<Rightarrow>
            if \<not> ok r then save_failed w1 data (http_error r)
            else
              (case hashData data of
                 Inl e \<Rightarrow> save_failed w1 data e
               | Inr h \<Rightarrow> (Inr True, w1\<lparr>lastSyncHash := Some h, retryAttempts := 0, isSyncing := False\<rparr>)))"
    using assms f
    by (simp add: saveToCloud_def save_try_def Let_def save_failed_def split: sum.splits)
  with k show ?thesis by blast
qed

text \<open>
  C9. A save that passes the guard sends one PUT request, between one and three times (the
  retries), and nothing else. Its body is the serialization of a new object: the properties of
  the given snapshot, with \<^verbatim>\<open>_meta\<close> set to the clock's ISO time stamp, the version
  \<^verbatim>\<open>1.0.0\<close> and the first 50 characters of the user agent. The snapshot itself is only read:
  every property but \<^verbatim>\<open>_meta\<close> reads in the payload as in the snapshot, and the fingerprint
  recorded after a successful save is that of the snapshot as given.
\<close>

theorem saveToCloud_payload:
  assumes "\<not> isSyncing w"
  shows "(\<exists>k. 1 \<le> k \<and> k \<le> 3 \<and>
            requests (snd (saveToCloud w data)) =
              requests w @ replicate k \<lparr>sent = put_request w (make_payload w data), while_syncing = True\<rparr>)
    \<and> req_method (put_request w (make_payload w data)) = ''PUT''
    \<and> req_body (put_request w (make_payload w data)) = stringify (make_payload w data)
    \<and> get_prop (make_payload w data) ''_meta'' =
          Inr (JObj [(''lastSync'', JStr (toISOString w (now w))),
                     (''version'', JStr ''1.0.0''),
                     (''device'', JStr (take 50 (userAgent w)))])
    \<and> (\<forall>name. name \<noteq> ''_meta'' \<longrightarrow>
          get_prop (make_payload w data) name = Inr (lookup_prop (spread_props data) name))
    \<and> (fst (saveToCloud w data) = Inr True \<longrightarrow>
          hashData data = Inr (the (lastSyncHash (snd (saveToCloud w data)))))"
proof -
  obtain k where k: "1 \<le> k" "k \<le> 3"
    and s: "saveToCloud w data =
       (let w1 = after_attempts (w\<lparr>isSyncing := True\<rparr>) (put_request w (make_payload w data)) k in
        case outcome_result (net w (length (requests w) + k - 1)) of
          Inl e \<Rightarrow> save_failed w1 data e
        | Inr r \<Rightarrow>
            if \<not> ok r then save_failed w1 data (http_error r)
            else
              (case hashData data of
                 Inl e \<Rightarrow> save_failed w1 data e
               | Inr h \<Rightarrow> (Inr True, w1\<lparr>lastSyncHash := Some h, retryAttempts := 0, isSyncing := False\<rparr>)))"
    using saveToCloud_shape [OF assms, of data] by blast
  have req: "requests (snd (saveToCloud w data)) =
      requests w @ replicate k \<lparr>sent = put_request w (make_payload w data), while_syncing = True\<rparr>"
    unfolding s Let_def
    by (simp add: save_failed_def addToSyncQueue_def split: sum.splits)
  have hash: "fst (saveToCloud w data) = Inr True \<longrightarrow>
      hashData data = Inr (the (lastSyncHash (snd (saveToCloud w data))))"
    unfolding s Let_def
    by (simp add: save_failed_def split: sum.splits)
  have meta: "get_prop (make_payload w data) ''_meta'' =
          Inr (JObj [(''lastSync'', JStr (toISOString w (now w))),
                     (''version'', JStr ''1.0.0''),
                     (''device'', JStr (take 50 (userAgent w)))])"
    by (simp add: make_payload_def sync_meta_def set_prop_def lookup_prop_def update_conv')
  have rest: "\<forall>name. name \<noteq> ''_meta'' \<longrightarrow>
          get_prop (make_payload w data) name = Inr (lookup_prop (spread_props data) name)"
    by (simp add: make_payload_def set_prop_def lookup_prop_def update_conv')
  have "req_method (put_request w (make_payload w data)) = ''PUT''"
    and "req_body (put_request w (make_payload w data)) = stringify (make_payload w data)"
    by (simp_all add: put_request_def)
  with k req hash meta rest show ?thesis by blast
qed

lemmas eval_string = quote_string_def quote_char_def int_to_string_def nat_to_string.simps digit_char_def

lemmas eval_hash = hashData_def hash_string_def char_codes_def hash_step_31 to_int32_def

lemma hashData_balance_100: "hashData balance_100 = Inr ''251271022''"
  by (simp add: balance_100_def eval_hash eval_string)

lemma saveToCloud_example:
  "saveToCloud (example_world (always_ok (JObj []))) balance_100 =
     (Inr True,
      (example_world (always_ok (JObj [])))
        \<lparr>requests :=
           [\<lparr>sent = put_request (example_world (always_ok (JObj [])))
                     (make_payload (example_world (always_ok (JObj []))) balance_100),
             while_syncing = True\<rparr>],
         lastSyncHash := Some ''251271022''\<rparr>)"
  unfolding saveToCloud_def save_try_def fetchWithRetry_attempts Let_def
  by (simp add: example_world_def always_ok_def http_response_def retriable_def outcome_result_def
      ok_def after_attempts_def logged_def hashData_balance_100 put_request_def make_payload_def
      sync_meta_def)

theorem saveToCloud_payload_witness:
  "\<not> isSyncing (example_world (always_ok (JObj [])))
   \<and> requests (snd (saveToCloud (example_world (always_ok (JObj []))) balance_100)) =
       [\<lparr>sent = put_request (example_world (always_ok (JObj [])))
                 (make_payload (example_world (always_ok (JObj []))) balance_100),
         while_syncing = True\<rparr>]
   \<and> req_body (put_request (example_world (always_ok (JObj [])))
         (make_payload (example_world (always_ok (JObj []))) balance_100)) =
       Some ''{\"currentBalance\":100,\"_meta\":{\"lastSync\":\"2024-01-01T00:00:00.000Z\",\"version\":\"1.0.0\",\"device\":\"Mozilla/5.0\"}}''
   \<and> get_prop (make_payload (example_world (always_ok (JObj []))) balance_100) ''currentBalance'' =
       Inr (JNum 100)"
proof -
  have g: "\<not> isSyncing (example_world (always_ok (JObj [])))"
    by (simp add: example_world_def)
  have str: "stringify (make_payload (example_world (always_ok (JObj []))) balance_100) =
      Some ''{\"currentBalance\":100,\"_meta\":{\"lastSync\":\"2024-01-01T00:00:00.000Z\",\"version\":\"1.0.0\",\"device\":\"Mozilla/5.0\"}}''"
    by (simp add: make_payload_def sync_meta_def example_world_def balance_100_def set_prop_def
        eval_string)
  have bal: "lookup_prop (spread_props balance_100) ''currentBalance'' = JNum 100"
    by (simp add: balance_100_def lookup_prop_def)
  have sent: "requests (snd (saveToCloud (example_world (always_ok (JObj []))) balance_100)) =
       [\<lparr>sent = put_request (example_world (always_ok (JObj [])))
                 (make_payload (example_world (always_ok (JObj []))) balance_100),
         while_syncing = True\<rparr>]"
    by (simp add: saveToCloud_example)
  note t = saveToCloud_payload [OF g, of balance_100]
  have body: "req_body (put_request (example_world (always_ok (JObj [])))
         (make_payload (example_world (always_ok (JObj []))) balance_100)) =
       Some ''{\"currentBalance\":100,\"_meta\":{\"lastSync\":\"2024-01-01T00:00:00.000Z\",\"version\":\"1.0.0\",\"device\":\"Mozilla/5.0\"}}''"
    using t str by simp
  have cb: "get_prop (make_payload (example_world (always_ok (JObj []))) balance_100) ''currentBalance'' =
       Inr (JNum 100)"
    using t bal by simp
  show ?thesis using g sent body cb by blast
qed

text \<open>
  C8. A save that raises an error while the queue store is ready has appended exactly one
  operation to the queue: kind \<^verbatim>\<open>save\<close>, the snapshot as given, the message of the error,
  \<^verbatim>\<open>synced = false\<close> and the clock's reading as creation time; the error is what the caller
  gets. And a save that passes the guard does fail that way when all three attempts end in a
  transport error or a status of 500 or more.
\<close>

theorem saveToCloud_failure_enqueues:
  "(dbReady w \<and> saveToCloud w data = (Inl e, w') \<longrightarrow>
      syncQueue w' = syncQueue w @
        [\<lparr>op_id = nextKey w, op_type = ''save'', op_data = data, op_error = message e,
          op_timestamp = now w', synced = False, syncedAt = None\<rparr>])
   \<and> (\<not> isSyncing w \<and> retriable (net w (length (requests w)))
        \<and> retriable (net w (length (requests w) + 1))
        \<and> retriable (net w (length (requests w) + 2))
      \<longrightarrow> (\<exists>e'. fst (saveToCloud w data) = Inl e'))"
proof (intro conjI impI)
  assume a: "dbReady w \<and> saveToCloud w data = (Inl e, w')"
  have g: "\<not> isSyncing w"
    using a by (auto simp: saveToCloud_def)
  obtain k where s: "saveToCloud w data =
       (let w1 = after_attempts (w\<lparr>isSyncing := True\<rparr>) (put_request w (make_payload w data)) k in
        case outcome_result (net w (length (requests w) + k - 1)) of
          Inl e \<Rightarrow> save_failed w1 data e
        | Inr r \<Rightarrow>
            if \<not> ok r then save_failed w1 data (http_error r)
            else
              (case hashData data of
                 Inl e \<Rightarrow> save_failed w1 data e
               | Inr h \<Rightarrow> (Inr True, w1\<lparr>lastSyncHash := Some h, retryAttempts := 0, isSyncing := False\<rparr>)))"
    using saveToCloud_shape [OF g, of data] by blast
  show "syncQueue w' = syncQueue w @
        [\<lparr>op_id = nextKey w, op_type = ''save'', op_data = data, op_error = message e,
          op_timestamp = now w', synced = False, syncedAt = None\<rparr>]"
    using a unfolding s Let_def
    by (auto simp: save_failed_def addToSyncQueue_def split: sum.splits if_splits)
next
  assume a: "\<not> isSyncing w \<and> retriable (net w (length (requests w)))
        \<and> retriable (net w (length (requests w) + 1))
        \<and> retriable (net w (length (requests w) + 2))"
  then have g: "\<not> isSyncing w" by simp
  obtain k where k: "1 \<le> k" "k \<le> 3" and s: "saveToCloud w data =
       (let w1 = after_attempts (w\<lparr>isSyncing := True\<rparr>) (put_request w (make_payload w data)) k in
        case outcome_result (net w (length (requests w) + k - 1)) of
          Inl e \<Rightarrow> save_failed w1 data e
        | Inr r \<Rightarrow>
            if \<not> ok r then save_failed w1 data (http_error r)
            else
              (case hashData data of
                 Inl e \<Rightarrow> save_failed w1 data e
               | Inr h \<Rightarrow> (Inr True, w1\<lparr>lastSyncHash := Some h, retryAttempts := 0, isSyncing := False\<rparr>)))"
    using saveToCloud_shape [OF g, of data] by blast
  from k have "k = 1 \<or> k = 2 \<or> k = 3" by arith
  with a have r: "retriable (net w (length (requests w) + k - 1))"
    by auto
  show "\<exists>e'. fst (saveToCloud w data) = Inl e'"
    using r unfolding s Let_def
    by (auto simp: save_failed_def retriable_def outcome_result_def ok_def
        split: sum.splits fetch_outcome.splits)
qed

lemma saveToCloud_unavailable:
  "fst (saveToCloud (example_world always_unavailable) balance_100) =
     Inl (Error ''HTTP 503: Service Unavailable'')
   \<and> now (snd (saveToCloud (example_world always_unavailable) balance_100)) = 7000
   \<and> length (requests (snd (saveToCloud (example_world always_unavailable) balance_100))) = 3"
  unfolding saveToCloud_def save_try_def fetchWithRetry_attempts Let_def
  by (simp add: example_world_def always_unavailable_def http_response_def retriable_def
      outcome_result_def ok_def after_attempts_3 http_error_def addToSyncQueue_def
      nat_to_string.simps digit_char_def)

theorem saveToCloud_failure_enqueues_witness:
  "dbReady (example_world always_unavailable)
   \<and> fst (saveToCloud (example_world always_unavailable) balance_100) =
       Inl (Error ''HTTP 503: Service Unavailable'')
   \<and> length (requests (snd (saveToCloud (example_world always_unavailable) balance_100))) = 3
   \<and> syncQueue (snd (saveToCloud (example_world always_unavailable) balance_100)) =
       [\<lparr>op_id = 1, op_type = ''save'', op_data = balance_100,
         op_error = ''HTTP 503: Service Unavailable'', op_timestamp = 7000,
         synced = False, syncedAt = None\<rparr>]"
proof -
  have r: "dbReady (example_world always_unavailable)"
    by (simp add: example_world_def)
  have s: "saveToCloud (example_world always_unavailable) balance_100 =
      (Inl (Error ''HTTP 503: Service Unavailable''),
       snd (saveToCloud (example_world always_unavailable) balance_100))"
    using saveToCloud_unavailable by (simp add: prod_eq_iff)
  have q: "syncQueue (snd (saveToCloud (example_world always_unavailable) balance_100)) =
      syncQueue (example_world always_unavailable) @
        [\<lparr>op_id = nextKey (example_world always_unavailable), op_type = ''save'',
          op_data = balance_100, op_error = message (Error ''HTTP 503: Service Unavailable''),
          op_timestamp = now (snd (saveToCloud (example_world always_unavailable) balance_100)),
          synced = False, syncedAt = None\<rparr>]"
    using saveToCloud_failure_enqueues [of "example_world always_unavailable" balance_100
        "Error ''HTTP 503: Service Unavailable''"
        "snd (saveToCloud (example_world always_unavailable) balance_100)"] r s
    by blast
  have "syncQueue (snd (saveToCloud (example_world always_unavailable) balance_100)) =
       [\<lparr>op_id = 1, op_type = ''save'', op_data = balance_100,
         op_error = ''HTTP 503: Service Unavailable'', op_timestamp = 7000,
         synced = False, syncedAt = None\<rparr>]"
    unfolding q using saveToCloud_unavailable by (simp add: example_world_def)
  then show ?thesis using r saveToCloud_unavailable by blast
qed

section \<open>syncData\<close>

lemma saveToCloud_guarded: "isSyncing w \<Longrightarrow> saveToCloud w data = (Inr False, w)"
  by (simp add: saveToCloud_def)

lemma resolve_guarded: "isSyncing w \<Longrightarrow> snd (resolve w l c) = w"
  by (simp add: resolve_def saveToCloud_guarded split: sum.splits)

lemma resolve_result: "fst (resolve w l c) \<noteq> Inr AlreadySyncing"
  by (simp add: resolve_def split: sum.splits prod.splits)

lemma loadFromCloud_shape:
  "\<exists>k h. 1 \<le> k \<and> k \<le> 3 \<and>
     snd (loadFromCloud w) = (after_attempts w (get_request w) k)\<lparr>lastSyncHash := h\<rparr>"
proof -
  obtain k where k: "1 \<le> k" "k \<le> 3"
    and f: "fetchWithRetry w (get_request w) 1 =
       (outcome_result (net w (length (requests w) + k - 1)), after_attempts w (get_request w) k)"
    using fetchWithRetry_shape [of w "get_request w"] by blast
  have same: "after_attempts w (get_request w) k =
      (after_attempts w (get_request w) k)\<lparr>lastSyncHash := lastSyncHash w\<rparr>"
    by (simp add: after_attempts_def)
  have "snd (loadFromCloud w) = after_attempts w (get_request w) k
      \<or> (\<exists>h. snd (loadFromCloud w) = (after_attempts w (get_request w) k)\<lparr>lastSyncHash := Some h\<rparr>)"
    using f by (auto simp: loadFromCloud_def split: sum.splits option.splits)
  then show ?thesis using k same by metis
qed

lemma sync_try_shape:
  assumes "isSyncing w"
  shows "\<exists>k h. 1 \<le> k \<and> k \<le> 3 \<and>
     snd (sync_try w d) = (after_attempts w (get_request w) k)\<lparr>lastSyncHash := h\<rparr>"
proof -
  obtain k h where k: "1 \<le> k" "k \<le> 3"
    and l: "snd (loadFromCloud w) = (after_attempts w (get_request w) k)\<lparr>lastSyncHash := h\<rparr>"
    using loadFromCloud_shape [of w] by blast
  have g: "isSyncing (snd (loadFromCloud w))"
    using assms by (simp add: l)
  have "snd (sync_try w d) = snd (loadFromCloud w)"
    using resolve_guarded [OF g]
    by (auto simp: sync_try_def split: sum.splits prod.splits)
  with k l show ?thesis by metis
qed

lemma sync_try_result: "fst (sync_try w d) \<noteq> Inr AlreadySyncing"
  using resolve_result by (simp add: sync_try_def split: sum.splits prod.splits)

lemma syncData_requests:
  assumes "\<not> isSyncing w"
  shows "\<exists>k. 1 \<le> k \<and> k \<le> 3 \<and>
     requests (snd (syncData w d)) =
       requests w @ replicate k \<lparr>sent = get_request w, while_syncing = True\<rparr>"
proof -
  obtain k h where k: "1 \<le> k" "k \<le> 3"
    and s: "snd (sync_try (w\<lparr>isSyncing := True\<rparr>) d) =
       (after_attempts (w\<lparr>isSyncing := True\<rparr>) (get_request (w\<lparr>isSyncing := True\<rparr>)) k)\<lparr>lastSyncHash := h\<rparr>"
    using sync_try_shape [of "w\<lparr>isSyncing := True\<rparr>" d] by auto
  have "requests (snd (syncData w d)) = requests (snd (sync_try (w\<lparr>isSyncing := True\<rparr>) d))"
    using assms by (simp add: syncData_def split: sum.splits prod.splits)
  then have "requests (snd (syncData w d)) =
       requests w @ replicate k \<lparr>sent = get_request w, while_syncing = True\<rparr>"
    by (simp add: s)
  with k show ?thesis by blast
qed

text \<open>
  C2. A call of \<^verbatim>\<open>syncData\<close> that finds \<^verbatim>\<open>isSyncing\<close> set returns
  \<^verbatim>\<open>already_syncing\<close> and leaves everything as it was: no request, no change of state.
  Otherwise the result is one of the other outcomes, every request of the call is sent while
  \<^verbatim>\<open>isSyncing\<close> is set, and \<^verbatim>\<open>isSyncing\<close> is clear when the call returns.
\<close>

theorem syncData_single_flight:
  "(isSyncing w \<longrightarrow> syncData w localData = (AlreadySyncing, w))
   \<and> (\<not> isSyncing w \<longrightarrow>
        \<not> isSyncing (snd (syncData w localData))
        \<and> fst (syncData w localData) \<noteq> AlreadySyncing
        \<and> (\<exists>k. 1 \<le> k \<and> k \<le> 3 \<and>
              requests (snd (syncData w localData)) =
                requests w @ replicate k \<lparr>sent = get_request w, while_syncing = True\<rparr>))"
proof (intro conjI impI)
  assume "isSyncing w"
  then show "syncData w localData = (AlreadySyncing, w)"
    by (simp add: syncData_def)
next
  assume "\<not> isSyncing w"
  then show "\<not> isSyncing (snd (syncData w localData))"
    by (simp add: syncData_def split: sum.splits prod.splits)
next
  assume "\<not> isSyncing w"
  then show "fst (syncData w localData) \<noteq> AlreadySyncing"
    using sync_try_result [of "w\<lparr>isSyncing := True\<rparr>" localData]
    by (auto simp: syncData_def split: sum.splits prod.splits)
next
  assume "\<not> isSyncing w"
  then show "\<exists>k. 1 \<le> k \<and> k \<le> 3 \<and>
              requests (snd (syncData w localData)) =
                requests w @ replicate k \<lparr>sent = get_request w, while_syncing = True\<rparr>"
    by (rule syncData_requests)
qed

lemma hashData_local_newer: "hashData local_newer = Inr ''-201877843''"
  by (simp add: local_newer_def eval_hash eval_string)

lemma hashData_cloud_older: "hashData cloud_older = Inr ''-201878804''"
  by (simp add: cloud_older_def eval_hash eval_string)

lemma last_sync_examples:
  "last_sync local_newer = Inr (JNum 2)" "last_sync cloud_older = Inr (JNum 1)"
  by (simp_all add: last_sync_def local_newer_def cloud_older_def lookup_prop_def)

lemma syncData_example:
  "syncData (example_world (always_ok cloud_older)) local_newer =
     (Uploaded,
      (example_world (always_ok cloud_older))
        \<lparr>requests := [\<lparr>sent = get_request (example_world (always_ok cloud_older)),
                        while_syncing = True\<rparr>],
         lastSyncHash := Some ''-201878804''\<rparr>)"
  unfolding syncData_def sync_try_def loadFromCloud_def fetchWithRetry_attempts Let_def
  by (simp add: example_world_def always_ok_def http_response_def retriable_def outcome_result_def
      ok_def after_attempts_def logged_def hashData_local_newer hashData_cloud_older resolve_def
      last_sync_examples js_gt_def saveToCloud_guarded get_request_def)

theorem syncData_single_flight_witness:
  "isSyncing ((example_world (always_ok cloud_older))\<lparr>isSyncing := True\<rparr>)
   \<and> syncData ((example_world (always_ok cloud_older))\<lparr>isSyncing := True\<rparr>) local_newer =
       (AlreadySyncing, (example_world (always_ok cloud_older))\<lparr>isSyncing := True\<rparr>)
   \<and> \<not> isSyncing (example_world (always_ok cloud_older))
   \<and> \<not> isSyncing (snd (syncData (example_world (always_ok cloud_older)) local_newer))
   \<and> requests (snd (syncData (example_world (always_ok cloud_older)) local_newer)) =
       [\<lparr>sent = get_request (example_world (always_ok cloud_older)), while_syncing = True\<rparr>]"
proof -
  have busy: "isSyncing ((example_world (always_ok cloud_older))\<lparr>isSyncing := True\<rparr>)"
    by simp
  have idle: "\<not> isSyncing (example_world (always_ok cloud_older))"
    by (simp add: example_world_def)
  have a: "syncData ((example_world (always_ok cloud_older))\<lparr>isSyncing := True\<rparr>) local_newer =
       (AlreadySyncing, (example_world (always_ok cloud_older))\<lparr>isSyncing := True\<rparr>)"
    using syncData_single_flight [of "(example_world (always_ok cloud_older))\<lparr>isSyncing := True\<rparr>"
        local_newer] busy by blast
  have b: "\<not> isSyncing (snd (syncData (example_world (always_ok cloud_older)) local_newer))"
    using syncData_single_flight [of "example_world (always_ok cloud_older)" local_newer] idle
    by blast
  have c: "requests (snd (syncData (example_world (always_ok cloud_older)) local_newer)) =
       [\<lparr>sent = get_request (example_world (always_ok cloud_older)), while_syncing = True\<rparr>]"
    by (simp add: syncData_example)
  show ?thesis using busy idle a b c by blast
qed

text \<open>
  C1, at a concrete input: the local snapshot carries \<^verbatim>\<open>_meta.lastSync = 2\<close>, the remote
  document \<^verbatim>\<open>_meta.lastSync = 1\<close>, their fingerprints differ and the remote answers every
  request with 200. \<^verbatim>\<open>syncData\<close> reports \<^verbatim>\<open>uploaded\<close>, yet the only request of the call is
  the GET that loaded the remote document: \<^verbatim>\<open>saveToCloud\<close> finds \<^verbatim>\<open>isSyncing\<close> set by
  \<^verbatim>\<open>syncData\<close> itself and returns \<^verbatim>\<open>false\<close> without sending anything.
\<close>

theorem syncData_uploaded_sends_nothing:
  "fst (syncData (example_world (always_ok cloud_older)) local_newer) = Uploaded
   \<and> hashData local_newer \<noteq> hashData cloud_older
   \<and> js_gt (JNum 2) (JNum 1)
   \<and> map (\<lambda>e. req_method (sent e))
         (requests (snd (syncData (example_world (always_ok cloud_older)) local_newer))) = [''GET'']
   \<and> saveToCloud ((example_world (always_ok cloud_older))\<lparr>isSyncing := True\<rparr>) local_newer =
       (Inr False, (example_world (always_ok cloud_older))\<lparr>isSyncing := True\<rparr>)"
  by (simp add: syncData_example hashData_local_newer hashData_cloud_older js_gt_def
      get_request_def saveToCloud_guarded)

section \<open>processSyncQueue\<close>

text \<open>No record of the queue is in the index \<^verbatim>\<open>synced\<close>, and the query for the pending
  operations is refused whatever the queue holds: a boolean is not a key.\<close>

lemma synced_index_empty: "synced_index w = []"
  by (simp add: synced_index_def synced_key_def)

lemma getPendingSyncOperations_rejects: "getPendingSyncOperations w = Inl data_error"
  by (simp add: getPendingSyncOperations_def getByIndex_synced_def)

lemma processSyncQueue_rejects: "dbReady w \<Longrightarrow> processSyncQueue w = Inl data_error"
  by (simp add: processSyncQueue_def getPendingSyncOperations_rejects)

lemma process_operation_guarded:
  "isSyncing w \<Longrightarrow> process_operation operation w = markAsSynced (op_id operation) w"
  by (simp add: process_operation_def saveToCloud_guarded)

text \<open>
  C10, at a concrete input: the store is ready and holds two pending operations, a
  \<^verbatim>\<open>delete\<close> under key 1 and a \<^verbatim>\<open>save\<close> under key 2. The query for the pending operations
  throws, so \<^verbatim>\<open>processSyncQueue\<close> rejects before its loop: nothing is marked, swept or
  uploaded. And where the body of the loop does run on the \<^verbatim>\<open>save\<close> operation while
  \<^verbatim>\<open>isSyncing\<close> is set, \<^verbatim>\<open>saveToCloud\<close> returns \<^verbatim>\<open>false\<close> without a request, the operation
  is marked synced all the same, and the sweep deletes it.
\<close>

theorem processSyncQueue_drains_nothing:
  "dbReady queue_world
   \<and> filter (\<lambda>e. \<not> synced e) (syncQueue queue_world) =
       [queued 1 ''delete'' JNull, queued 2 ''save'' balance_100]
   \<and> getPendingSyncOperations queue_world = Inl data_error
   \<and> processSyncQueue queue_world = Inl data_error
   \<and> requests (process_operation (queued 2 ''save'' balance_100) (queue_world\<lparr>isSyncing := True\<rparr>)) = []
   \<and> syncQueue (clearSyncedOperations
         (process_operation (queued 2 ''save'' balance_100) (queue_world\<lparr>isSyncing := True\<rparr>))) =
       [queued 1 ''delete'' JNull]"
proof -
  have ready: "dbReady queue_world"
    by (simp add: queue_world_def example_world_def)
  have pending: "filter (\<lambda>e. \<not> synced e) (syncQueue queue_world) =
       [queued 1 ''delete'' JNull, queued 2 ''save'' balance_100]"
    by (simp add: queue_world_def queued_def)
  have body: "process_operation (queued 2 ''save'' balance_100) (queue_world\<lparr>isSyncing := True\<rparr>) =
      markAsSynced 2 (queue_world\<lparr>isSyncing := True\<rparr>)"
    by (simp add: process_operation_guarded queued_def)
  have sent: "requests (process_operation (queued 2 ''save'' balance_100) (queue_world\<lparr>isSyncing := True\<rparr>)) = []"
    unfolding body
    by (simp add: markAsSynced_def queue_world_def example_world_def Let_def split: option.splits)
  have swept: "syncQueue (clearSyncedOperations
         (process_operation (queued 2 ''save'' balance_100) (queue_world\<lparr>isSyncing := True\<rparr>))) =
       [queued 1 ''delete'' JNull]"
    unfolding body
    by (simp add: clearSyncedOperations_def markAsSynced_def queue_world_def queued_def Let_def)
  show ?thesis
    by (intro conjI ready pending getPendingSyncOperations_rejects
        processSyncQueue_rejects [OF ready] sent swept)
qed

end
